theory Spec2Isabelle
  imports Main
begin

section \<open>Human-step detector (src/browser/detector.ts)\<close>

text \<open>
  The detector only ever asks the live page two kinds of question: how many \<open>body\<close>
  elements the first frame matching a selector has
  (\<open>page.frameLocator(sel).first().locator('body').count()\<close>) and how many elements
  match a selector (\<open>page.locator(sel).count()\<close>).  A page snapshot is therefore the
  pair of these two answer tables: what the page answers to a selector that the browser
  library accepts.  An answer \<open>None\<close> is a rejected promise (the lookup itself failed);
  the source turns it into \<open>0\<close> with \<open>.catch(() => 0)\<close>.  With every lookup absorbed this
  way, nothing is left to reach the outer \<open>catch\<close> of a check, which would return the
  same undetected result as the end of its \<open>try\<close> block.  Calls of the logger are left
  out.
\<close>

datatype HumanStepType = Captcha | TwoFA | FileUpload | Consent | Unknown

record DetectionResult =
  detected :: bool
  htype :: HumanStepType
  description :: string
  element :: "string option"

record Snapshot =
  frameBodyCount :: "string \<Rightarrow> nat option"
  locatorCount :: "string \<Rightarrow> nat option"

datatype Query = FrameQuery string | LocatorQuery string

definition orZero :: "nat option \<Rightarrow> nat" where
  "orZero r = (case r of None \<Rightarrow> 0 | Some n \<Rightarrow> n)"

text \<open>
  Which selectors the browser library (Playwright) accepts.  Its selector parser looks
  for the first \<open>=\<close> of a selector; when the text before it, trimmed, is a non-empty
  word over the characters \<open>a-z A-Z _ 0-9 - + : *\<close>, that word is the name of the selector
  engine (\<open>text=Log in\<close>, \<open>css=div\<close>, \<open>id=main\<close>).  Any other selector is read as CSS,
  as XPath or as quoted text, which are always known.  A name that is not a registered
  engine makes the library refuse the selector (\<open>Unknown engine\<close>), so that every lookup
  with it is a rejected promise.  The program registers no engine of its own.
\<close>

definition engineNameChar :: "char \<Rightarrow> bool" where
  "engineNameChar c \<longleftrightarrow>
     c \<in> set ''abcdefghijklmnopqrstuvwxyzABCDEFGHIJKLMNOPQRSTUVWXYZ_0123456789-+:*''"

definition trim :: "string \<Rightarrow> string" where
  "trim s = rev (dropWhile (\<lambda>c. c = CHR '' '') (rev (dropWhile (\<lambda>c. c = CHR '' '') s)))"

definition selectorEngine :: "string \<Rightarrow> string option" where
  "selectorEngine selector =
     (let name = trim (takeWhile (\<lambda>c. c \<noteq> CHR ''='') selector)
      in if CHR ''='' \<in> set selector \<and> name \<noteq> [] \<and> list_all engineNameChar name
         then Some name else None)"

definition registeredEngines :: "string list" where
  "registeredEngines =
     [''css'', ''css:light'', ''xpath'', ''xpath:light'', ''text'', ''text:light'',
      ''id'', ''id:light'', ''data-testid'', ''data-testid:light'', ''data-test-id'',
      ''data-test-id:light'', ''data-test'', ''data-test:light'', ''_react'', ''_vue'',
      ''role'', ''nth'', ''visible'', ''internal:control'', ''internal:has'',
      ''internal:has-not'', ''internal:has-text'', ''internal:has-not-text'',
      ''internal:and'', ''internal:or'', ''internal:chain'', ''internal:label'',
      ''internal:text'', ''internal:role'', ''internal:attr'', ''internal:testid'']"

text \<open>\<open>page.locator(selector).count()\<close>: the page's answer, or a rejection when the
  selector names an engine that does not exist.\<close>

definition locate :: "Snapshot \<Rightarrow> string \<Rightarrow> nat option" where
  "locate p selector =
     (case selectorEngine selector of
        None \<Rightarrow> locatorCount p selector
      | Some name \<Rightarrow> if name \<in> set registeredEngines then locatorCount p selector else None)"

definition recaptchaFrame :: string where
  \<open>recaptchaFrame = ''iframe[src*="recaptcha"]''\<close>

definition hcaptchaFrame :: string where
  \<open>hcaptchaFrame = ''iframe[src*="hcaptcha"]''\<close>

definition captchaKeywords :: "string list" where
  \<open>captchaKeywords =
    [''text*="I'm not a robot"'',
     ''text*="Verify you are human"'',
     ''text*="Complete the CAPTCHA"'',
     ''text*="Security check"'',
     ''[class*="captcha" i]'',
     ''[id*="captcha" i]'']\<close>

definition twoFAKeywords :: "string list" where
  \<open>twoFAKeywords =
    [''text*="verification code"'',
     ''text*="Enter the code"'',
     ''text*="Two-factor authentication"'',
     ''text*="2FA"'',
     ''text*="authenticator"'',
     ''text*="security code"'',
     ''input[type="text"][autocomplete*="one-time"]'',
     ''input[placeholder*="code" i]'',
     ''input[placeholder*="OTP" i]'']\<close>

definition visibleFileInput :: string where
  \<open>visibleFileInput = ''input[type="file"]:visible''\<close>

definition uploadLabels :: "string list" where
  \<open>uploadLabels =
    [''text*="Upload resume"'',
     ''text*="Upload CV"'',
     ''text*="Attach resume"'',
     ''text*="Choose file"'']\<close>

definition consentKeywords :: "string list" where
  \<open>consentKeywords =
    [''text*="Equal Employment Opportunity"'',
     ''text*="EEO"'',
     ''text*="Voluntary Self-Identification"'',
     ''text*="Demographics"'',
     ''text*="I consent to"'',
     ''text*="I agree to"'',
     ''text*="Terms and Conditions"'',
     ''text*="Privacy Policy"'']\<close>

definition uncheckedCheckbox :: string where
  \<open>uncheckedCheckbox = ''input[type="checkbox"]:not(:checked)''\<close>

text \<open>
  \<open>for (const selector of keywords) { count = await page.locator(selector).count()...;
  if (count > 0) return ... }\<close>: the first selector with a positive count, together
  with the lookups issued on the way, in order.
\<close>

fun firstMatch :: "Snapshot \<Rightarrow> string list \<Rightarrow> string option \<times> Query list" where
  "firstMatch p [] = (None, [])"
| "firstMatch p (selector # rest) =
     (if 0 < orZero (locate p selector) then (Some selector, [LocatorQuery selector])
      else (case firstMatch p rest of (r, qs) \<Rightarrow> (r, LocatorQuery selector # qs)))"

definition notDetected :: "HumanStepType \<Rightarrow> DetectionResult" where
  "notDetected t = \<lparr>detected = False, htype = t, description = [], element = None\<rparr>"

definition detectCaptcha :: "Snapshot \<Rightarrow> DetectionResult \<times> Query list" where
  "detectCaptcha p =
     (if 0 < orZero (frameBodyCount p recaptchaFrame) then
        (\<lparr>detected = True, htype = Captcha,
          description = ''reCAPTCHA verification required'',
          element = Some recaptchaFrame\<rparr>,
         [FrameQuery recaptchaFrame])
      else if 0 < orZero (frameBodyCount p hcaptchaFrame) then
        (\<lparr>detected = True, htype = Captcha,
          description = ''hCaptcha verification required'',
          element = Some hcaptchaFrame\<rparr>,
         [FrameQuery recaptchaFrame, FrameQuery hcaptchaFrame])
      else
        (case firstMatch p captchaKeywords of
           (Some selector, qs) \<Rightarrow>
             (\<lparr>detected = True, htype = Captcha,
               description = ''CAPTCHA verification required'',
               element = Some selector\<rparr>,
              FrameQuery recaptchaFrame # FrameQuery hcaptchaFrame # qs)
         | (None, qs) \<Rightarrow>
             (notDetected Captcha, FrameQuery recaptchaFrame # FrameQuery hcaptchaFrame # qs)))"

definition detect2FA :: "Snapshot \<Rightarrow> DetectionResult \<times> Query list" where
  "detect2FA p =
     (case firstMatch p twoFAKeywords of
        (Some selector, qs) \<Rightarrow>
          (\<lparr>detected = True, htype = TwoFA,
            description = ''Two-factor authentication or verification code required'',
            element = Some selector\<rparr>, qs)
      | (None, qs) \<Rightarrow> (notDetected TwoFA, qs))"

definition detectFileUpload :: "Snapshot \<Rightarrow> DetectionResult \<times> Query list" where
  "detectFileUpload p =
     (if 0 < orZero (locate p visibleFileInput) then
        (case firstMatch p uploadLabels of
           (Some selector, qs) \<Rightarrow>
             (\<lparr>detected = True, htype = FileUpload,
               description = ''File upload required (resume/CV or document)'',
               element = Some selector\<rparr>, LocatorQuery visibleFileInput # qs)
         | (None, qs) \<Rightarrow> (notDetected FileUpload, LocatorQuery visibleFileInput # qs))
      else (notDetected FileUpload, [LocatorQuery visibleFileInput]))"

text \<open>
  The consent loop looks the unchecked checkboxes up again for every keyword that
  matches, and goes on to the next keyword when there are none.
\<close>

fun consentScan :: "Snapshot \<Rightarrow> string list \<Rightarrow> string option \<times> Query list" where
  "consentScan p [] = (None, [])"
| "consentScan p (selector # rest) =
     (if 0 < orZero (locate p selector) then
        (if 0 < orZero (locate p uncheckedCheckbox) then
           (Some selector, [LocatorQuery selector, LocatorQuery uncheckedCheckbox])
         else (case consentScan p rest of
                 (r, qs) \<Rightarrow> (r, LocatorQuery selector # LocatorQuery uncheckedCheckbox # qs)))
      else (case consentScan p rest of (r, qs) \<Rightarrow> (r, LocatorQuery selector # qs)))"

definition detectConsent :: "Snapshot \<Rightarrow> DetectionResult \<times> Query list" where
  "detectConsent p =
     (case consentScan p consentKeywords of
        (Some selector, qs) \<Rightarrow>
          (\<lparr>detected = True, htype = Consent,
            description = ''Consent or EEO form requires review and confirmation'',
            element = Some selector\<rparr>, qs)
      | (None, qs) \<Rightarrow> (notDetected Consent, qs))"

text \<open>
  \<open>detectHumanStep\<close> returns \<open>DetectionResult | null\<close>; \<open>null\<close> is \<open>None\<close>.  The second
  component lists every lookup of the cycle, tagged with the category check that
  issued it.
\<close>

definition tagged :: "HumanStepType \<Rightarrow> Query list \<Rightarrow> (HumanStepType \<times> Query) list" where
  "tagged t qs = map (Pair t) qs"

definition detectHumanStep ::
  "Snapshot \<Rightarrow> DetectionResult option \<times> (HumanStepType \<times> Query) list" where
  "detectHumanStep p =
     (case detectCaptcha p of (captchaResult, q1) \<Rightarrow>
        if detected captchaResult then (Some captchaResult, tagged Captcha q1)
        else (case detect2FA p of (twoFAResult, q2) \<Rightarrow>
          if detected twoFAResult then
            (Some twoFAResult, tagged Captcha q1 @ tagged TwoFA q2)
          else (case detectFileUpload p of (fileUploadResult, q3) \<Rightarrow>
            if detected fileUploadResult then
              (Some fileUploadResult,
               tagged Captcha q1 @ tagged TwoFA q2 @ tagged FileUpload q3)
            else (case detectConsent p of (consentResult, q4) \<Rightarrow>
              if detected consentResult then
                (Some consentResult,
                 tagged Captcha q1 @ tagged TwoFA q2 @ tagged FileUpload q3
                   @ tagged Consent q4)
              else
                (None,
                 tagged Captcha q1 @ tagged TwoFA q2 @ tagged FileUpload q3
                   @ tagged Consent q4)))))"


section \<open>The run-time environment\<close>

text \<open>
  Everything outside the program is one record.  \<open>clock\<close> is \<open>Date.now()\<close> in
  milliseconds; \<open>page\<close> is what the browser tab shows at each instant (the human works
  on it while the program waits); \<open>detectMs\<close> is the time one detection cycle takes.
  \<open>gotoFault\<close> is what \<open>page.goto\<close> throws for a URL, if anything.  \<open>storeFault n\<close> is
  what the \<open>n\<close>-th call into the SQLite client throws, if anything (a locked or closed
  database, a full disk, a violated constraint); \<open>storeCalls\<close> counts the calls made
  so far.  The tables, the desktop notifications and the \<open>[Loop n]\<close> console lines are
  the observable outputs.  The navigation and the calls into the store are the
  statements that may throw; timed waits and the notifier are taken to complete.
\<close>

datatype Thrown = ErrorObject string | OtherValue string

datatype ApplicationStatus = Queued | InProgress | Paused | Completed | Failed

datatype StepType =
  Navigation | FormFill | HumanStepDetected | HumanStepResolved
  | DraftGenerated | AnswerInserted | Submission | ErrorStep

datatype ActionType =
  JobSync | JobQueue | DraftGenerate | ApplicationStart | HumanStepPause | HumanStepResume
  | AnswerInsert | SubmissionConfirm | SubmissionCancel | ProfileCreate | ProfileUpdate
  | ProfileExport

datatype EntityType = JobEntity | ApplicationEntity | SourceEntity | ProfileEntity

record Application =
  jobId :: nat
  status :: ApplicationStatus
  startedAt :: "nat option"
  completedAt :: "nat option"
  appNotes :: "string option"

record ApplicationStep =
  stepApplicationId :: nat
  stepType :: StepType
  stepDescription :: string
  stepTimestamp :: nat
  stepMetadata :: "(string \<times> string option) list"

record AuditLog =
  auditTimestamp :: nat
  actionType :: ActionType
  entityType :: EntityType
  entityId :: "nat option"
  userConfirmed :: bool
  auditMetadata :: "(string \<times> string option) list"

datatype Notification =
  HumanStepNotice HumanStepType string
  | ProgressNotice string string string
  | CompleteNotice string string bool

record World =
  clock :: nat
  page :: "nat \<Rightarrow> Snapshot"
  detectMs :: nat
  gotoFault :: "string \<Rightarrow> Thrown option"
  storeFault :: "nat \<Rightarrow> Thrown option"
  storeCalls :: nat
  applications :: "nat \<Rightarrow> Application option"
  steps :: "ApplicationStep list"
  auditLog :: "AuditLog list"
  notifications :: "Notification list"
  detectionCycles :: nat
  loopBanners :: "nat list"

text \<open>\<open>CURRENT_TIMESTAMP\<close> of SQLite has a resolution of one second.\<close>

definition currentTimestamp :: "World \<Rightarrow> nat" where
  "currentTimestamp w = clock w div 1000"

definition waitForTimeout :: "nat \<Rightarrow> World \<Rightarrow> World" where
  "waitForTimeout ms w = w\<lparr>clock := clock w + ms\<rparr>"

text \<open>\<open>await detectHumanStep(page)\<close>: one detection cycle on what the tab shows now.\<close>

definition runDetection :: "World \<Rightarrow> DetectionResult option \<times> World" where
  "runDetection w =
     (fst (detectHumanStep (page w (clock w))),
      w\<lparr>clock := clock w + detectMs w, detectionCycles := Suc (detectionCycles w)\<rparr>)"

section \<open>Resolution waiter (src/browser/detector.ts)\<close>

text \<open>\<open>!currentResult || currentResult.type !== detectionResult.type\<close>\<close>

definition resolved :: "DetectionResult \<Rightarrow> DetectionResult option \<Rightarrow> bool" where
  "resolved detectionResult currentResult =
     (case currentResult of None \<Rightarrow> True | Some cur \<Rightarrow> htype cur \<noteq> htype detectionResult)"

function waitLoop :: "DetectionResult \<Rightarrow> int \<Rightarrow> nat \<Rightarrow> World \<Rightarrow> bool \<times> World" where
  "waitLoop detectionResult timeoutMs startTime w =
     (if int (clock w) - int startTime < timeoutMs then
        (case runDetection w of (currentResult, w1) \<Rightarrow>
           if resolved detectionResult currentResult then (True, w1)
           else waitLoop detectionResult timeoutMs startTime (waitForTimeout 2000 w1))
      else (False, w))"
  by pat_completeness auto
termination
  by (relation "measure (\<lambda>(d, t, s, w). nat (int s + t - int (clock w)))")
     (auto simp: runDetection_def waitForTimeout_def)

declare waitLoop.simps [simp del]

text \<open>The default of the optional parameter: \<open>timeoutMs = 300000\<close>.\<close>

definition timeoutOr :: "int option \<Rightarrow> int" where
  "timeoutOr timeoutMs = (case timeoutMs of None \<Rightarrow> 300000 | Some t \<Rightarrow> t)"

definition waitForHumanStepResolution ::
  "DetectionResult \<Rightarrow> int option \<Rightarrow> World \<Rightarrow> bool \<times> World" where
  "waitForHumanStepResolution detectionResult timeoutMs w =
     waitLoop detectionResult (timeoutOr timeoutMs) (clock w) w"


section \<open>Application store (src/db/client.ts) and its clients\<close>

text \<open>
  What the \<open>UPDATE applications SET ...\<close> statement of \<open>updateApplicationStatus\<close> does
  to the row it addresses, at timestamp \<open>now\<close>:
  \<open>started_at = COALESCE(started_at, CURRENT_TIMESTAMP)\<close> for \<open>in_progress\<close> and
  \<open>paused\<close>, \<open>completed_at = CURRENT_TIMESTAMP\<close> for \<open>completed\<close> and \<open>failed\<close>.
\<close>

definition setStatus :: "nat \<Rightarrow> ApplicationStatus \<Rightarrow> Application \<Rightarrow> Application" where
  "setStatus now st a =
     (if st = InProgress \<or> st = Paused then
        a\<lparr>status := st,
          startedAt := (case startedAt a of None \<Rightarrow> Some now | Some t \<Rightarrow> Some t)\<rparr>
      else if st = Completed \<or> st = Failed then
        a\<lparr>status := st, completedAt := Some now\<rparr>
      else a\<lparr>status := st\<rparr>)"

text \<open>A sequence of status updates on one row, each with the timestamp of its call.\<close>

definition setStatuses :: "(nat \<times> ApplicationStatus) list \<Rightarrow> Application \<Rightarrow> Application" where
  "setStatuses calls a = foldl (\<lambda>row (now, st). setStatus now st row) a calls"

type_synonym 'a action = "World \<Rightarrow> (Thrown + 'a) \<times> World"

text \<open>\<open>WHERE id = ?\<close> addresses no row when the id is unknown; the statement then
  changes nothing and does not fail.\<close>

definition updateApplicationStatus :: "nat \<Rightarrow> ApplicationStatus \<Rightarrow> unit action" where
  "updateApplicationStatus appId st w =
     (case storeFault w (storeCalls w) of
        Some e \<Rightarrow> (Inl e, w\<lparr>storeCalls := Suc (storeCalls w)\<rparr>)
      | None \<Rightarrow>
          (Inr (),
           w\<lparr>storeCalls := Suc (storeCalls w),
             applications := (applications w)
               (appId := map_option (setStatus (currentTimestamp w) st) (applications w appId))\<rparr>))"

text \<open>\<open>addApplicationStep\<close> inserts one row; the row it returns is not used by the
  workflow.\<close>

definition addApplicationStep ::
  "nat \<Rightarrow> StepType \<Rightarrow> string \<Rightarrow> (string \<times> string option) list \<Rightarrow> unit action" where
  "addApplicationStep appId ty text metadata w =
     (case storeFault w (storeCalls w) of
        Some e \<Rightarrow> (Inl e, w\<lparr>storeCalls := Suc (storeCalls w)\<rparr>)
      | None \<Rightarrow>
          (Inr (),
           w\<lparr>storeCalls := Suc (storeCalls w),
             steps := steps w @
               [\<lparr>stepApplicationId = appId, stepType = ty, stepDescription = text,
                 stepTimestamp = currentTimestamp w, stepMetadata = metadata\<rparr>]\<rparr>))"

text \<open>\<open>audit\<close> (src/utils/audit.ts) wraps \<open>addAuditLog\<close> in \<open>try/catch\<close> and swallows its
  failure.\<close>

definition audit ::
  "ActionType \<Rightarrow> EntityType \<Rightarrow> nat option \<Rightarrow> bool \<Rightarrow> (string \<times> string option) list
     \<Rightarrow> World \<Rightarrow> World" where
  "audit action entity ident confirmed metadata w =
     (case storeFault w (storeCalls w) of
        Some e \<Rightarrow> w\<lparr>storeCalls := Suc (storeCalls w)\<rparr>
      | None \<Rightarrow>
          w\<lparr>storeCalls := Suc (storeCalls w),
            auditLog := auditLog w @
              [\<lparr>auditTimestamp = currentTimestamp w, actionType = action, entityType = entity,
                entityId = ident, userConfirmed = confirmed, auditMetadata = metadata\<rparr>]\<rparr>)"

text \<open>
  The notifier (src/browser/notifier.ts) never throws into its caller.  The log keeps
  which of the three notification functions was called with what; titles, sounds and
  the delivery by the desktop are left out.
\<close>

definition notifyHumanStepDetected :: "HumanStepType \<Rightarrow> string \<Rightarrow> World \<Rightarrow> World" where
  "notifyHumanStepDetected t text w =
     w\<lparr>notifications := notifications w @ [HumanStepNotice t text]\<rparr>"

definition notifyApplicationProgress :: "string \<Rightarrow> string \<Rightarrow> string \<Rightarrow> World \<Rightarrow> World" where
  "notifyApplicationProgress title company progress w =
     w\<lparr>notifications := notifications w @ [ProgressNotice title company progress]\<rparr>"

definition notifyApplicationComplete :: "string \<Rightarrow> string \<Rightarrow> bool \<Rightarrow> World \<Rightarrow> World" where
  "notifyApplicationComplete title company ok w =
     w\<lparr>notifications := notifications w @ [CompleteNotice title company ok]\<rparr>"

text \<open>\<open>navigateToUrl\<close> (browser launcher): \<open>page.goto\<close>, then a wait of two seconds; a
  failure is logged and thrown again.\<close>

definition navigateToUrl :: "string \<Rightarrow> unit action" where
  "navigateToUrl url w =
     (case gotoFault w url of
        Some e \<Rightarrow> (Inl e, w)
      | None \<Rightarrow> (Inr (), waitForTimeout 2000 w))"

section \<open>Application workflow (browser automator)\<close>

record ApplicationContext =
  applicationId :: nat
  ctxJobId :: nat
  jobUrl :: string
  jobTitle :: string
  jobCompany :: string

record WorkflowResult =
  success :: bool
  message :: string

text \<open>Of the console output only the \<open>[Loop n]\<close> line of each iteration is kept (in
  \<open>loopBanners\<close>); the instructions printed for the human change nothing else.\<close>

text \<open>The strings of the union type \<open>HumanStepType\<close>.\<close>

fun typeName :: "HumanStepType \<Rightarrow> string" where
  "typeName Captcha = ''captcha''"
| "typeName TwoFA = ''2fa''"
| "typeName FileUpload = ''file_upload''"
| "typeName Consent = ''consent''"
| "typeName Unknown = ''unknown''"

definition maxLoops :: nat where
  "maxLoops = 20"

text \<open>Sequencing of calls that may throw: the first exception ends the sequence.\<close>

definition andThen :: "'a action \<Rightarrow> ('a \<Rightarrow> 'b action) \<Rightarrow> 'b action" where
  "andThen m f w = (case m w of (Inl e, w1) \<Rightarrow> (Inl e, w1) | (Inr x, w1) \<Rightarrow> f x w1)"

text \<open>The statements of the loop body from the detection to the call of the waiter:
  the \<open>human_step_detected\<close> step, status \<open>paused\<close>, the notification, the audit entry.\<close>

definition recordHumanStep :: "ApplicationContext \<Rightarrow> DetectionResult \<Rightarrow> unit action" where
  "recordHumanStep ctx humanStep =
     andThen (addApplicationStep (applicationId ctx) HumanStepDetected
                (typeName (htype humanStep) @ '': '' @ description humanStep)
                [(''type'', Some (typeName (htype humanStep))), (''element'', element humanStep)])
     (\<lambda>_. andThen (updateApplicationStatus (applicationId ctx) Paused)
     (\<lambda>_ w. (Inr (),
        audit HumanStepPause ApplicationEntity (Some (applicationId ctx)) False
          [(''stepType'', Some (typeName (htype humanStep))),
           (''description'', Some (description humanStep))]
          (notifyHumanStepDetected (htype humanStep) (description humanStep) w))))"

text \<open>The statements after a resolved wait: the \<open>human_step_resolved\<close> step, status
  \<open>in_progress\<close>, the audit entry, a wait of two seconds.\<close>

definition resumeAfterHumanStep :: "ApplicationContext \<Rightarrow> DetectionResult \<Rightarrow> unit action" where
  "resumeAfterHumanStep ctx humanStep =
     andThen (addApplicationStep (applicationId ctx) HumanStepResolved
                (typeName (htype humanStep) @ '' resolved'') [])
     (\<lambda>_. andThen (updateApplicationStatus (applicationId ctx) InProgress)
     (\<lambda>_ w. (Inr (),
        waitForTimeout 2000
          (audit HumanStepResume ApplicationEntity (Some (applicationId ctx)) True
             [(''stepType'', Some (typeName (htype humanStep)))] w))))"

definition timeoutResult :: "DetectionResult \<Rightarrow> WorkflowResult" where
  "timeoutResult humanStep =
     \<lparr>success = False,
      message = ''Timeout waiting for '' @ typeName (htype humanStep) @ '' resolution''\<rparr>"

text \<open>
  The \<open>while (continueApplication && loopCount < maxLoops)\<close> loop.  Its value is
  \<open>Inl e\<close> when a statement threw \<open>e\<close>, \<open>Inr (Some r)\<close> when the body executed
  \<open>return r\<close>, and \<open>Inr None\<close> when the loop condition became false.
\<close>

function workflowLoop ::
  "ApplicationContext \<Rightarrow> bool \<Rightarrow> nat \<Rightarrow> World \<Rightarrow> (Thrown + WorkflowResult option) \<times> World" where
  "workflowLoop ctx continueApplication loopCount w =
     (if continueApplication \<and> loopCount < maxLoops then
        (case runDetection (w\<lparr>loopBanners := loopBanners w @ [Suc loopCount]\<rparr>) of
           (Some humanStep, w1) \<Rightarrow>
             (case recordHumanStep ctx humanStep w1 of
                (Inl e, w2) \<Rightarrow> (Inl e, w2)
              | (Inr _, w2) \<Rightarrow>
                  (case waitForHumanStepResolution humanStep None w2 of
                     (False, w3) \<Rightarrow>
                       (case updateApplicationStatus (applicationId ctx) Paused w3 of
                          (Inl e, w4) \<Rightarrow> (Inl e, w4)
                        | (Inr _, w4) \<Rightarrow> (Inr (Some (timeoutResult humanStep)), w4))
                   | (True, w3) \<Rightarrow>
                       (case resumeAfterHumanStep ctx humanStep w3 of
                          (Inl e, w4) \<Rightarrow> (Inl e, w4)
                        | (Inr _, w4) \<Rightarrow>
                            workflowLoop ctx continueApplication (Suc loopCount) w4)))
         | (None, w1) \<Rightarrow> workflowLoop ctx False (Suc loopCount) w1)
      else (Inr None, w))"
  by pat_completeness auto
termination
  by (relation "measure (\<lambda>(ctx, c, n, w). maxLoops - n)") auto

declare workflowLoop.simps [simp del]

text \<open>The statements of the \<open>try\<close> block before the loop: status \<open>in_progress\<close>, the
  \<open>navigation\<close> step, the navigation, the progress notification, three seconds for the
  page to settle.\<close>

definition startWorkflow :: "ApplicationContext \<Rightarrow> unit action" where
  "startWorkflow ctx =
     andThen (updateApplicationStatus (applicationId ctx) InProgress)
     (\<lambda>_. andThen (addApplicationStep (applicationId ctx) Navigation
                     (''Navigating to '' @ jobUrl ctx) [])
     (\<lambda>_. andThen (navigateToUrl (jobUrl ctx))
     (\<lambda>_ w. (Inr (),
        waitForTimeout 3000
          (notifyApplicationProgress (jobTitle ctx) (jobCompany ctx) ''Page loaded'' w)))))"

text \<open>The statements of the \<open>try\<close> block after the loop: the \<open>submission\<close> step, status
  \<open>completed\<close>, the completion notification, the successful result.\<close>

definition finishWorkflow :: "ApplicationContext \<Rightarrow> WorkflowResult action" where
  "finishWorkflow ctx =
     andThen (addApplicationStep (applicationId ctx) Submission
                ''Application workflow completed (manual submission required)'' [])
     (\<lambda>_. andThen (updateApplicationStatus (applicationId ctx) Completed)
     (\<lambda>_ w. (Inr \<lparr>success = True, message = ''Application workflow completed successfully''\<rparr>,
              notifyApplicationComplete (jobTitle ctx) (jobCompany ctx) True w)))"

text \<open>The body of the \<open>try\<close> block.\<close>

definition workflowBody :: "ApplicationContext \<Rightarrow> WorkflowResult action" where
  "workflowBody ctx =
     andThen (startWorkflow ctx)
     (\<lambda>_. andThen (workflowLoop ctx True 0)
     (\<lambda>early. case early of
          Some r \<Rightarrow> (\<lambda>w. (Inr r, w))
        | None \<Rightarrow> finishWorkflow ctx))"

text \<open>The \<open>catch\<close> block: \<open>error.message\<close> for an \<open>Error\<close>, \<open>String(error)\<close> in the step and
  \<open>'Unknown error'\<close> in the result for any other thrown value.\<close>

definition handleWorkflowError :: "ApplicationContext \<Rightarrow> Thrown \<Rightarrow> WorkflowResult action" where
  "handleWorkflowError ctx error =
     andThen (addApplicationStep (applicationId ctx) ErrorStep
                (''Error: '' @ (case error of ErrorObject m \<Rightarrow> m | OtherValue s \<Rightarrow> s)) [])
     (\<lambda>_. andThen (updateApplicationStatus (applicationId ctx) Failed)
     (\<lambda>_ w. (Inr \<lparr>success = False,
                    message = (case error of ErrorObject m \<Rightarrow> m
                               | OtherValue s \<Rightarrow> ''Unknown error'')\<rparr>,
              notifyApplicationComplete (jobTitle ctx) (jobCompany ctx) False w)))"

text \<open>\<open>try { ... } catch (error) { ... }\<close>: a value \<open>Inl e\<close> of the whole function is an
  exception that reaches the caller.\<close>

definition runApplicationWorkflow :: "ApplicationContext \<Rightarrow> WorkflowResult action" where
  "runApplicationWorkflow ctx w =
     (case workflowBody ctx w of
        (Inr r, w1) \<Rightarrow> (Inr r, w1)
      | (Inl error, w1) \<Rightarrow> handleWorkflowError ctx error w1)"

section \<open>Poll schedule of the waiter\<close>

text \<open>
  Between two polls the waiter spends one detection cycle and the two-second wait.
  \<open>afterPolls k w\<close> is the environment in which poll number \<open>k\<close> (counted from 0)
  starts when the polls before it did not end the wait, and \<open>clearsAt prior w k\<close> says
  that poll \<open>k\<close> ends it.
\<close>

definition pollPeriod :: "World \<Rightarrow> nat" where
  "pollPeriod w = detectMs w + 2000"

definition afterPolls :: "nat \<Rightarrow> World \<Rightarrow> World" where
  "afterPolls k w =
     w\<lparr>clock := clock w + k * pollPeriod w, detectionCycles := detectionCycles w + k\<rparr>"

definition clearsAt :: "DetectionResult \<Rightarrow> World \<Rightarrow> nat \<Rightarrow> bool" where
  "clearsAt prior w k = resolved prior (fst (runDetection (afterPolls k w)))"

text \<open>What the detector reports at poll number \<open>k\<close>: its result on what the tab shows
  \<open>k\<close> poll periods after the start of the wait.\<close>

definition pollResult :: "World \<Rightarrow> nat \<Rightarrow> DetectionResult option" where
  "pollResult w k = fst (detectHumanStep (page w (clock w + k * pollPeriod w)))"

section \<open>Example pages and environments\<close>

definition pageOf :: "(string \<times> nat) list \<Rightarrow> (string \<times> nat) list \<Rightarrow> Snapshot" where
  "pageOf frames elements =
     \<lparr>frameBodyCount = (\<lambda>s. case map_of frames s of None \<Rightarrow> Some 0 | Some n \<Rightarrow> Some n),
      locatorCount = (\<lambda>s. case map_of elements s of None \<Rightarrow> Some 0 | Some n \<Rightarrow> Some n)\<rparr>"

definition blankPage :: Snapshot where
  "blankPage = pageOf [] []"

definition captchaPage :: Snapshot where
  "captchaPage = pageOf [(recaptchaFrame, 1)] []"

definition twoFAPage :: Snapshot where
  \<open>twoFAPage = pageOf [] [(''input[placeholder*="code" i]'', 1)]\<close>


text \<open>A consent form: the text \<open>EEO\<close> (found by the text engine) and two unchecked
  checkboxes.\<close>

definition consentPage :: Snapshot where
  \<open>consentPage = pageOf [] [(''text=EEO'', 1), (uncheckedCheckbox, 2)]\<close>

text \<open>An upload form: one visible file input and the text \<open>Upload CV\<close>.\<close>

definition uploadPage :: Snapshot where
  \<open>uploadPage = pageOf [] [(visibleFileInput, 1), (''text=Upload CV'', 1)]\<close>

definition captchaFound :: DetectionResult where
  "captchaFound =
     \<lparr>detected = True, htype = Captcha, description = ''reCAPTCHA verification required'',
      element = Some recaptchaFrame\<rparr>"

definition queuedApplication :: Application where
  "queuedApplication =
     \<lparr>jobId = 7, status = Queued, startedAt = None, completedAt = None, appNotes = None\<rparr>"

definition exampleContext :: ApplicationContext where
  "exampleContext =
     \<lparr>applicationId = 1, ctxJobId = 7, jobUrl = ''https://jobs.example/apply/7'',
      jobTitle = ''Engineer'', jobCompany = ''Example''\<rparr>"

text \<open>An environment without faults in which the tab shows \<open>pg t\<close> at time \<open>t\<close>.\<close>

definition quietWorld :: "(nat \<Rightarrow> Snapshot) \<Rightarrow> World" where
  "quietWorld pg =
     \<lparr>clock = 0, page = pg, detectMs = 0, gotoFault = (\<lambda>url. None),
      storeFault = (\<lambda>n. None), storeCalls = 0,
      applications = (\<lambda>i. if i = 1 then Some queuedApplication else None),
      steps = [], auditLog = [], notifications = [], detectionCycles = 0, loopBanners = []\<rparr>"

definition clearingWorld :: World where
  "clearingWorld = quietWorld (\<lambda>t. if t < 4000 then captchaPage else blankPage)"

definition stuckWorld :: World where
  "stuckWorld = quietWorld (\<lambda>t. captchaPage)"

definition offlineWorld :: World where
  "offlineWorld =
     (quietWorld (\<lambda>t. blankPage))
       \<lparr>gotoFault := (\<lambda>url. Some (ErrorObject ''net::ERR_NAME_NOT_RESOLVED''))\<rparr>"

definition lockedWorld :: World where
  "lockedWorld =
     (quietWorld (\<lambda>t. blankPage))\<lparr>storeFault := (\<lambda>n. Some (ErrorObject ''database is locked''))\<rparr>"

text \<open>The CAPTCHA that never clears, with a store that is locked at its sixth call (the
  status update after the timeout of the waiter) and works before and after.\<close>

definition busyStoreWorld :: World where
  "busyStoreWorld =
     stuckWorld\<lparr>storeFault := (\<lambda>n. if n = 5 then Some (ErrorObject ''database is locked'')
                                 else None)\<rparr>"

text \<open>A blank page, with a store whose third call (the \<open>submission\<close> step of a run that
  detects nothing) fails and whose other calls succeed.\<close>

definition fullDiskWorld :: World where
  "fullDiskWorld =
     (quietWorld (\<lambda>t. blankPage))
       \<lparr>storeFault := (\<lambda>n. if n = 2 then Some (ErrorObject ''database or disk is full'')
                           else None)\<rparr>"

text \<open>A store whose second call (the \<open>navigation\<close> step) fails and whose other calls
  succeed.\<close>

definition flakyStoreWorld :: World where
  "flakyStoreWorld =
     (quietWorld (\<lambda>t. blankPage))
       \<lparr>storeFault := (\<lambda>n. if n = 1 then Some (ErrorObject ''disk I/O error'') else None)\<rparr>"

text \<open>A page that shows a CAPTCHA and a verification-code prompt in turns, changing
  every two seconds.\<close>

definition flickerPage :: "nat \<Rightarrow> Snapshot" where
  "flickerPage t = (if even (t div 2000) then captchaPage else twoFAPage)"

definition flickerWorld :: World where
  "flickerWorld = quietWorld flickerPage"

definition twoFAFound :: DetectionResult where
  \<open>twoFAFound =
     \<lparr>detected = True, htype = TwoFA,
      description = ''Two-factor authentication or verification code required'',
      element = Some ''input[placeholder*="code" i]''\<rparr>\<close>

section \<open>Properties of the detector\<close>

lemmas selector_defs =
  recaptchaFrame_def hcaptchaFrame_def captchaKeywords_def twoFAKeywords_def
  visibleFileInput_def uploadLabels_def consentKeywords_def uncheckedCheckbox_def

lemmas detector_defs =
  detectHumanStep_def detectCaptcha_def detect2FA_def detectFileUpload_def
  detectConsent_def notDetected_def tagged_def orZero_def pageOf_def
  locate_def selectorEngine_def trim_def engineNameChar_def registeredEngines_def

lemma firstMatch_found:
  "fst (firstMatch p sels) = Some s \<Longrightarrow> s \<in> set sels \<and> 0 < orZero (locate p s)"
  by (induction sels) (auto split: if_splits prod.splits)

lemma firstMatch_None_iff:
  "fst (firstMatch p sels) = None \<longleftrightarrow> (\<forall>s \<in> set sels. orZero (locate p s) = 0)"
  by (induction sels) (auto split: if_splits prod.splits)

lemma consentScan_found:
  "fst (consentScan p sels) = Some s \<Longrightarrow>
     s \<in> set sels \<and> 0 < orZero (locate p s)
       \<and> 0 < orZero (locate p uncheckedCheckbox)"
  by (induction sels) (auto split: if_splits prod.splits)

lemma consentScan_None_iff:
  "fst (consentScan p sels) = None \<longleftrightarrow>
     (\<forall>s \<in> set sels. orZero (locate p s) = 0)
       \<or> orZero (locate p uncheckedCheckbox) = 0"
  by (induction sels) (auto split: if_splits prod.splits)

lemma detectCaptcha_htype: "htype (fst (detectCaptcha p)) = Captcha"
  by (simp add: detectCaptcha_def notDetected_def split: prod.splits option.splits)

lemma detect2FA_htype: "htype (fst (detect2FA p)) = TwoFA"
  by (simp add: detect2FA_def notDetected_def split: prod.splits option.splits)

lemma detectFileUpload_htype: "htype (fst (detectFileUpload p)) = FileUpload"
  by (simp add: detectFileUpload_def notDetected_def split: prod.splits option.splits)

lemma detectConsent_htype: "htype (fst (detectConsent p)) = Consent"
  by (simp add: detectConsent_def notDetected_def split: prod.splits option.splits)


lemma detectCaptcha_iff:
  "detected (fst (detectCaptcha p)) \<longleftrightarrow>
     0 < orZero (frameBodyCount p recaptchaFrame) \<or> 0 < orZero (frameBodyCount p hcaptchaFrame)
       \<or> (\<exists>s \<in> set captchaKeywords. 0 < orZero (locate p s))"
proof (cases "fst (firstMatch p captchaKeywords)")
  case None
  then have "detected (fst (detectCaptcha p)) \<longleftrightarrow>
      0 < orZero (frameBodyCount p recaptchaFrame) \<or> 0 < orZero (frameBodyCount p hcaptchaFrame)"
    by (auto simp: detectCaptcha_def notDetected_def split: prod.splits)
  moreover from None have "\<forall>s \<in> set captchaKeywords. orZero (locate p s) = 0"
    by (simp only: firstMatch_None_iff)
  ultimately show ?thesis by auto
next
  case (Some s)
  then have "detected (fst (detectCaptcha p))"
    by (auto simp: detectCaptcha_def split: prod.splits)
  moreover note firstMatch_found [OF Some]
  ultimately show ?thesis by blast
qed

lemma detect2FA_iff:
  "detected (fst (detect2FA p)) \<longleftrightarrow> (\<exists>s \<in> set twoFAKeywords. 0 < orZero (locate p s))"
proof (cases "fst (firstMatch p twoFAKeywords)")
  case None
  then have "\<not> detected (fst (detect2FA p))"
    by (auto simp: detect2FA_def notDetected_def split: prod.splits)
  moreover from None have "\<forall>s \<in> set twoFAKeywords. orZero (locate p s) = 0"
    by (simp only: firstMatch_None_iff)
  ultimately show ?thesis by auto
next
  case (Some s)
  then have "detected (fst (detect2FA p))"
    by (auto simp: detect2FA_def split: prod.splits)
  moreover note firstMatch_found [OF Some]
  ultimately show ?thesis by blast
qed

lemma consent_detected_iff:
  "detected (fst (detectConsent p)) \<longleftrightarrow>
     (\<exists>s \<in> set consentKeywords. 0 < orZero (locate p s))
       \<and> 0 < orZero (locate p uncheckedCheckbox)"
proof (cases "fst (consentScan p consentKeywords)")
  case None
  then have "\<not> detected (fst (detectConsent p))"
    by (auto simp: detectConsent_def notDetected_def split: prod.splits)
  moreover from None have "(\<forall>s \<in> set consentKeywords. orZero (locate p s) = 0)
      \<or> orZero (locate p uncheckedCheckbox) = 0"
    by (simp only: consentScan_None_iff)
  ultimately show ?thesis by auto
next
  case (Some s)
  then have "detected (fst (detectConsent p))"
    by (auto simp: detectConsent_def split: prod.splits)
  moreover note consentScan_found [OF Some]
  ultimately show ?thesis by blast
qed

lemma upload_detected_iff:
  "detected (fst (detectFileUpload p)) \<longleftrightarrow>
     0 < orZero (locate p visibleFileInput)
       \<and> (\<exists>s \<in> set uploadLabels. 0 < orZero (locate p s))"
proof (cases "fst (firstMatch p uploadLabels)")
  case None
  then have "\<not> detected (fst (detectFileUpload p))"
    by (auto simp: detectFileUpload_def notDetected_def split: prod.splits)
  moreover from None have "\<forall>s \<in> set uploadLabels. orZero (locate p s) = 0"
    by (simp only: firstMatch_None_iff)
  ultimately show ?thesis by auto
next
  case (Some s)
  then have "detected (fst (detectFileUpload p)) \<longleftrightarrow> 0 < orZero (locate p visibleFileInput)"
    by (auto simp: detectFileUpload_def notDetected_def split: prod.splits)
  moreover note firstMatch_found [OF Some]
  ultimately show ?thesis by blast
qed

lemma detectHumanStep_result:
  "fst (detectHumanStep p) =
     (if detected (fst (detectCaptcha p)) then Some (fst (detectCaptcha p))
      else if detected (fst (detect2FA p)) then Some (fst (detect2FA p))
      else if detected (fst (detectFileUpload p)) then Some (fst (detectFileUpload p))
      else if detected (fst (detectConsent p)) then Some (fst (detectConsent p))
      else None)"
  by (simp add: detectHumanStep_def split: prod.splits)




lemma locate_zero: "orZero (locatorCount p s) = 0 \<Longrightarrow> orZero (locate p s) = 0"
  by (simp add: locate_def orZero_def split: option.splits)

text \<open>Every selector of the form \<open>text*=...\<close> names the engine \<open>text*\<close>, which does not
  exist: whatever the page shows, the lookup is rejected.\<close>

lemma selectorEngine_text_star: "selectorEngine (''text*='' @ body) = Some ''text*''"
  by (simp add: selectorEngine_def trim_def engineNameChar_def)

lemma locate_text_star: "locate p (''text*='' @ body) = None"
  using selectorEngine_text_star [of body] by (simp add: locate_def registeredEngines_def)

lemma consentKeywords_rejected: "\<forall>s \<in> set consentKeywords. locate p s = None"
  using locate_text_star [of p] by (simp add: consentKeywords_def)

lemma uploadLabels_rejected: "\<forall>s \<in> set uploadLabels. locate p s = None"
  using locate_text_star [of p] by (simp add: uploadLabels_def)

subsection \<open>Priority order\<close>



subsection \<open>Nothing detected\<close>

text \<open>
  Claim C5, as stated, says that a page on which nothing matches yields a
  \<open>DetectionResult\<close> with \<open>detected: false\<close> and category none.  On the blank page the
  function returns \<open>null\<close> instead: no \<open>DetectionResult\<close> at all.
\<close>

theorem detectHumanStep_blank_is_null: "fst (detectHumanStep blankPage) = None"
  by (simp add: blankPage_def detector_defs selector_defs)

text \<open>
  Claim C5, amended.  When no category check matches, in particular when every lookup
  on the page finds nothing, \<open>detectHumanStep\<close> returns \<open>null\<close>; and whenever it returns a
  \<open>DetectionResult\<close>, that result has \<open>detected: true\<close> and one of the four categories.
\<close>

theorem detectHumanStep_null_iff:
  "(fst (detectHumanStep p) = None \<longleftrightarrow>
      \<not> detected (fst (detectCaptcha p)) \<and> \<not> detected (fst (detect2FA p))
        \<and> \<not> detected (fst (detectFileUpload p)) \<and> \<not> detected (fst (detectConsent p)))
   \<and> ((\<forall>s. orZero (frameBodyCount p s) = 0) \<and> (\<forall>s. orZero (locatorCount p s) = 0)
        \<longrightarrow> fst (detectHumanStep p) = None)
   \<and> (\<forall>r. fst (detectHumanStep p) = Some r \<longrightarrow> detected r \<and> htype r \<noteq> Unknown)"
proof -
  have a: "fst (detectHumanStep p) = None \<longleftrightarrow>
      \<not> detected (fst (detectCaptcha p)) \<and> \<not> detected (fst (detect2FA p))
        \<and> \<not> detected (fst (detectFileUpload p)) \<and> \<not> detected (fst (detectConsent p))"
    by (simp add: detectHumanStep_result)
  have b: "fst (detectHumanStep p) = None"
    if "(\<forall>s. orZero (frameBodyCount p s) = 0) \<and> (\<forall>s. orZero (locatorCount p s) = 0)"
    using that
    by (simp add: detectHumanStep_result detectCaptcha_iff detect2FA_iff upload_detected_iff
        consent_detected_iff locate_zero)
  have c: "detected r \<and> htype r \<noteq> Unknown" if "fst (detectHumanStep p) = Some r" for r
    using that detectCaptcha_htype [of p] detect2FA_htype [of p] detectFileUpload_htype [of p]
      detectConsent_htype [of p]
    by (auto simp: detectHumanStep_result split: if_splits)
  from a b c show ?thesis by blast
qed

text \<open>The blank page and a page with a reCAPTCHA frame.\<close>

theorem detectHumanStep_null_iff_witness:
  "(\<forall>s. orZero (frameBodyCount blankPage s) = 0) \<and> (\<forall>s. orZero (locatorCount blankPage s) = 0)
   \<and> fst (detectHumanStep blankPage) = None
   \<and> \<not> detected (fst (detectCaptcha blankPage))
   \<and> fst (detectHumanStep captchaPage) = Some captchaFound
   \<and> detected captchaFound \<and> htype captchaFound \<noteq> Unknown"
proof -
  have zero: "(\<forall>s. orZero (frameBodyCount blankPage s) = 0)
      \<and> (\<forall>s. orZero (locatorCount blankPage s) = 0)"
    by (simp add: blankPage_def pageOf_def orZero_def)
  with detectHumanStep_null_iff [of blankPage]
  have none: "fst (detectHumanStep blankPage) = None" by blast
  with detectHumanStep_null_iff [of blankPage]
  have nocap: "\<not> detected (fst (detectCaptcha blankPage))" by blast
  have some: "fst (detectHumanStep captchaPage) = Some captchaFound"
    by (simp add: captchaPage_def captchaFound_def detector_defs selector_defs)
  with detectHumanStep_null_iff [of captchaPage]
  have "detected captchaFound \<and> htype captchaFound \<noteq> Unknown" by blast
  with zero none nocap some show ?thesis by blast
qed

subsection \<open>Consent\<close>

text \<open>
  Claim C6 says that consent detection reports \<open>detected: true\<close> when a consent or EEO
  phrase and an unchecked checkbox are on the page together.  The program never does:
  each of its eight consent keywords is written \<open>text*="..."\<close>, a selector the browser
  library refuses, so each keyword lookup counts 0 whatever the page shows.  On a page
  with the text \<open>EEO\<close> and two unchecked checkboxes the check reports
  \<open>detected: false\<close>, and so it does on every page.
\<close>

theorem detectConsent_never_detects:
  \<open>locate consentPage ''text=EEO'' = Some 1
   \<and> locate consentPage uncheckedCheckbox = Some 2
   \<and> \<not> detected (fst (detectConsent consentPage))
   \<and> fst (detectHumanStep consentPage) = None
   \<and> (\<forall>p. \<not> detected (fst (detectConsent p)))\<close>
proof -
  have never: "\<not> detected (fst (detectConsent p))" for p
    using consentKeywords_rejected [of p]
    by (simp add: consent_detected_iff orZero_def)
  have page: \<open>locate consentPage ''text=EEO'' = Some 1\<close>
      "locate consentPage uncheckedCheckbox = Some 2"
    by (simp_all add: consentPage_def detector_defs selector_defs)
  have none: "fst (detectHumanStep consentPage) = None"
    by (simp add: consentPage_def detector_defs selector_defs)
  from never page none show ?thesis by blast
qed

subsection \<open>File upload\<close>

text \<open>
  Claim C7 says that file-upload detection reports \<open>detected: true\<close> when a visible file
  input and an upload prompt are on the page together.  The program never does: each
  of its four upload labels is written \<open>text*="..."\<close>, a selector the browser library
  refuses, so each label lookup counts 0 whatever the page shows.  On a page with a
  visible file input and the text \<open>Upload CV\<close> the check reports \<open>detected: false\<close>,
  and so it does on every page.
\<close>

theorem detectFileUpload_never_detects:
  \<open>locate uploadPage visibleFileInput = Some 1
   \<and> locate uploadPage ''text=Upload CV'' = Some 1
   \<and> \<not> detected (fst (detectFileUpload uploadPage))
   \<and> fst (detectHumanStep uploadPage) = None
   \<and> (\<forall>p. \<not> detected (fst (detectFileUpload p)))\<close>
proof -
  have never: "\<not> detected (fst (detectFileUpload p))" for p
    using uploadLabels_rejected [of p]
    by (simp add: upload_detected_iff orZero_def)
  have page: "locate uploadPage visibleFileInput = Some 1"
      \<open>locate uploadPage ''text=Upload CV'' = Some 1\<close>
    by (simp_all add: uploadPage_def detector_defs selector_defs)
  have none: "fst (detectHumanStep uploadPage) = None"
    by (simp add: uploadPage_def detector_defs selector_defs)
  from never page none show ?thesis by blast
qed

section \<open>Properties of the waiter\<close>

lemma afterPolls_0: "afterPolls 0 w = w"
  by (simp add: afterPolls_def)

lemma afterPolls_Suc:
  "waitForTimeout 2000 (snd (runDetection (afterPolls k w))) = afterPolls (Suc k) w"
  by (simp add: afterPolls_def runDetection_def waitForTimeout_def pollPeriod_def algebra_simps)

lemma clock_afterPolls: "clock (afterPolls k w) = clock w + k * pollPeriod w"
  by (simp add: afterPolls_def)

lemma waitLoop_skip:
  "(\<forall>j<k. int (j * pollPeriod w) < T \<and> \<not> clearsAt prior w j) \<Longrightarrow>
     waitLoop prior T (clock w) w = waitLoop prior T (clock w) (afterPolls k w)"
proof (induction k)
  case 0
  show ?case by (simp add: afterPolls_0)
next
  case (Suc k)
  then have IH: "waitLoop prior T (clock w) w = waitLoop prior T (clock w) (afterPolls k w)"
    by simp
  from Suc.prems have intime: "int (k * pollPeriod w) < T" and still: "\<not> clearsAt prior w k"
    by simp_all
  have "waitLoop prior T (clock w) (afterPolls k w)
      = waitLoop prior T (clock w) (waitForTimeout 2000 (snd (runDetection (afterPolls k w))))"
    using intime still
    by (subst waitLoop.simps) (simp add: clock_afterPolls clearsAt_def case_prod_beta)
  with IH show ?case by (simp only: afterPolls_Suc)
qed

lemma waitLoop_clears:
  assumes "\<forall>j<k. \<not> clearsAt prior w j" and "clearsAt prior w k" and "int (k * pollPeriod w) < T"
  shows "waitLoop prior T (clock w) w = (True, snd (runDetection (afterPolls k w)))"
proof -
  have "\<forall>j<k. int (j * pollPeriod w) < T \<and> \<not> clearsAt prior w j"
  proof (intro allI impI conjI)
    fix j assume "j < k"
    then have "j * pollPeriod w \<le> k * pollPeriod w" by simp
    with assms(3) show "int (j * pollPeriod w) < T" by linarith
    from \<open>j < k\<close> assms(1) show "\<not> clearsAt prior w j" by simp
  qed
  then have "waitLoop prior T (clock w) w = waitLoop prior T (clock w) (afterPolls k w)"
    by (rule waitLoop_skip)
  also have "\<dots> = (True, snd (runDetection (afterPolls k w)))"
    using assms(2,3)
    by (subst waitLoop.simps) (simp add: clock_afterPolls clearsAt_def case_prod_beta)
  finally show ?thesis .
qed

lemma waitLoop_expires:
  assumes "\<forall>k. int (k * pollPeriod w) < T \<longrightarrow> \<not> clearsAt prior w k"
  shows "\<exists>n. waitLoop prior T (clock w) w = (False, afterPolls n w)
           \<and> T \<le> int (n * pollPeriod w) \<and> (\<forall>m<n. int (m * pollPeriod w) < T)"
proof -
  define n where "n = (LEAST n. T \<le> int (n * pollPeriod w))"
  have "T \<le> int (nat T * pollPeriod w)"
    by (cases "T \<le> 0") (simp_all add: pollPeriod_def)
  then have late: "T \<le> int (n * pollPeriod w)"
    unfolding n_def by (rule LeastI)
  have early: "\<forall>m<n. int (m * pollPeriod w) < T"
  proof (intro allI impI)
    fix m assume "m < n"
    then have "\<not> T \<le> int (m * pollPeriod w)"
      unfolding n_def by (rule not_less_Least)
    then show "int (m * pollPeriod w) < T" by simp
  qed
  with assms have "\<forall>j<n. int (j * pollPeriod w) < T \<and> \<not> clearsAt prior w j"
    by simp
  then have "waitLoop prior T (clock w) w = waitLoop prior T (clock w) (afterPolls n w)"
    by (rule waitLoop_skip)
  also have "\<dots> = (False, afterPolls n w)"
    using late by (subst waitLoop.simps) (simp add: clock_afterPolls)
  finally show ?thesis using late early by blast
qed

lemma waiter_never_resolved:
  assumes "\<forall>t. \<not> resolved prior (fst (detectHumanStep (page w t)))"
  shows "fst (waitForHumanStepResolution prior tm w) = False"
proof -
  have "\<forall>k. int (k * pollPeriod w) < timeoutOr tm \<longrightarrow> \<not> clearsAt prior w k"
    using assms by (simp add: clearsAt_def runDetection_def afterPolls_def)
  from waitLoop_expires [OF this] show ?thesis
    by (auto simp: waitForHumanStepResolution_def)
qed

lemma clearsAt_iff:
  "clearsAt prior w k \<longleftrightarrow>
     pollResult w k = None \<or> (\<exists>cur. pollResult w k = Some cur \<and> htype cur \<noteq> htype prior)"
  by (simp add: clearsAt_def pollResult_def runDetection_def afterPolls_def resolved_def
      split: option.splits)

lemma not_clearsAt_iff:
  "\<not> clearsAt prior w k \<longleftrightarrow> (\<exists>cur. pollResult w k = Some cur \<and> htype cur = htype prior)"
  by (auto simp: clearsAt_iff)

text \<open>
  Claim C1.  \<open>waitForHumanStepResolution\<close> polls the detector every two seconds (plus
  the time a detection cycle takes).  A poll ends the wait when the detector reports
  nothing or reports a category other than the one detected before; a poll that reports
  the same category does not.  The function returns \<open>true\<close> at the first poll that starts
  before the timeout has elapsed and ends the wait, right after that poll's detection
  cycle; when every poll that starts before the timeout has elapsed reports the same
  category, it returns \<open>false\<close>, after the first wait that reaches the timeout.  The
  timeout defaults to 300000 ms.
\<close>

theorem waitForHumanStepResolution_polls:
  "(\<forall>k. (\<forall>j<k. \<exists>cur. pollResult w j = Some cur \<and> htype cur = htype prior)
          \<and> (pollResult w k = None
               \<or> (\<exists>cur. pollResult w k = Some cur \<and> htype cur \<noteq> htype prior))
          \<and> int (k * pollPeriod w) < timeoutOr timeoutMs
        \<longrightarrow> waitForHumanStepResolution prior timeoutMs w
              = (True, snd (runDetection (afterPolls k w))))
   \<and> ((\<forall>k. int (k * pollPeriod w) < timeoutOr timeoutMs
             \<longrightarrow> (\<exists>cur. pollResult w k = Some cur \<and> htype cur = htype prior))
        \<longrightarrow> (\<exists>n. waitForHumanStepResolution prior timeoutMs w = (False, afterPolls n w)
                 \<and> timeoutOr timeoutMs \<le> int (n * pollPeriod w)
                 \<and> (\<forall>m<n. int (m * pollPeriod w) < timeoutOr timeoutMs)))
   \<and> pollPeriod w = detectMs w + 2000
   \<and> timeoutOr None = 300000"
proof -
  have yes: "waitForHumanStepResolution prior timeoutMs w
      = (True, snd (runDetection (afterPolls k w)))"
    if "(\<forall>j<k. \<exists>cur. pollResult w j = Some cur \<and> htype cur = htype prior)
          \<and> (pollResult w k = None
               \<or> (\<exists>cur. pollResult w k = Some cur \<and> htype cur \<noteq> htype prior))
          \<and> int (k * pollPeriod w) < timeoutOr timeoutMs"
    for k
  proof -
    from that have "\<forall>j<k. \<not> clearsAt prior w j" by (simp add: not_clearsAt_iff)
    moreover from that have "clearsAt prior w k" by (simp add: clearsAt_iff)
    moreover from that have "int (k * pollPeriod w) < timeoutOr timeoutMs" by simp
    ultimately show ?thesis
      unfolding waitForHumanStepResolution_def by (rule waitLoop_clears)
  qed
  have no: "\<exists>n. waitForHumanStepResolution prior timeoutMs w = (False, afterPolls n w)
                 \<and> timeoutOr timeoutMs \<le> int (n * pollPeriod w)
                 \<and> (\<forall>m<n. int (m * pollPeriod w) < timeoutOr timeoutMs)"
    if "\<forall>k. int (k * pollPeriod w) < timeoutOr timeoutMs
             \<longrightarrow> (\<exists>cur. pollResult w k = Some cur \<and> htype cur = htype prior)"
  proof -
    from that have "\<forall>k. int (k * pollPeriod w) < timeoutOr timeoutMs \<longrightarrow> \<not> clearsAt prior w k"
      by (simp add: not_clearsAt_iff)
    then show ?thesis
      unfolding waitForHumanStepResolution_def by (rule waitLoop_expires)
  qed
  have vals: "pollPeriod w = detectMs w + 2000" "timeoutOr None = 300000"
    by (simp_all add: pollPeriod_def timeoutOr_def)
  show ?thesis
  proof (intro conjI allI impI)
    show "pollPeriod w = detectMs w + 2000" by (rule vals)
    show "timeoutOr None = 300000" by (rule vals)
  qed (erule yes, erule no)
qed

lemma pollResult_clearing:
  "pollResult clearingWorld 0 = Some captchaFound"
  "pollResult clearingWorld 1 = Some captchaFound"
  "pollResult clearingWorld 2 = None"
  by (simp_all add: pollResult_def pollPeriod_def clearingWorld_def quietWorld_def
      captchaFound_def captchaPage_def blankPage_def detector_defs selector_defs)

lemma pollResult_flicker:
  "pollResult flickerWorld 0 = Some captchaFound"
  "pollResult flickerWorld 1 = Some twoFAFound"
  by (simp_all add: pollResult_def pollPeriod_def flickerWorld_def flickerPage_def quietWorld_def
      captchaFound_def twoFAFound_def captchaPage_def twoFAPage_def detector_defs selector_defs)

lemma pollResult_stuck: "pollResult stuckWorld k = Some captchaFound"
  by (simp add: pollResult_def stuckWorld_def quietWorld_def captchaFound_def captchaPage_def
      detector_defs selector_defs)

text \<open>A CAPTCHA that gives way to a blank page after four seconds is reported
  resolved by the third poll, at four seconds.  A CAPTCHA that gives way to a
  verification-code prompt after two seconds is reported resolved by the second poll: a
  change of category ends the wait.  A CAPTCHA that never clears makes a five-second
  wait return \<open>false\<close> after three polls, at six seconds.\<close>

theorem waitForHumanStepResolution_polls_witness:
  "pollResult clearingWorld 0 = Some captchaFound
   \<and> pollResult clearingWorld 1 = Some captchaFound
   \<and> pollResult clearingWorld 2 = None
   \<and> int (2 * pollPeriod clearingWorld) < timeoutOr (Some 10000)
   \<and> waitForHumanStepResolution captchaFound (Some 10000) clearingWorld
       = (True, clearingWorld\<lparr>clock := 4000, detectionCycles := 3\<rparr>)
   \<and> pollResult flickerWorld 0 = Some captchaFound
   \<and> pollResult flickerWorld 1 = Some twoFAFound
   \<and> htype twoFAFound \<noteq> htype captchaFound
   \<and> waitForHumanStepResolution captchaFound None flickerWorld
       = (True, flickerWorld\<lparr>clock := 2000, detectionCycles := 2\<rparr>)
   \<and> (\<forall>k. pollResult stuckWorld k = Some captchaFound)
   \<and> waitForHumanStepResolution captchaFound (Some 5000) stuckWorld
       = (False, stuckWorld\<lparr>clock := 6000, detectionCycles := 3\<rparr>)"
proof -
  note polls = waitForHumanStepResolution_polls
  have before: "\<forall>j<2. \<exists>cur. pollResult clearingWorld j = Some cur
      \<and> htype cur = htype captchaFound"
  proof (intro allI impI)
    fix j :: nat assume "j < 2"
    then have "j = 0 \<or> j = 1" by arith
    with pollResult_clearing(1,2)
    show "\<exists>cur. pollResult clearingWorld j = Some cur \<and> htype cur = htype captchaFound"
      by auto
  qed
  have intime: "int (2 * pollPeriod clearingWorld) < timeoutOr (Some 10000)"
    by (simp add: pollPeriod_def clearingWorld_def quietWorld_def timeoutOr_def)
  from polls [of clearingWorld captchaFound "Some 10000", THEN conjunct1, rule_format, of 2]
    before pollResult_clearing(3) intime
  have "waitForHumanStepResolution captchaFound (Some 10000) clearingWorld
      = (True, snd (runDetection (afterPolls 2 clearingWorld)))"
    by blast
  then have a: "waitForHumanStepResolution captchaFound (Some 10000) clearingWorld
      = (True, clearingWorld\<lparr>clock := 4000, detectionCycles := 3\<rparr>)"
    by (simp add: runDetection_def afterPolls_def pollPeriod_def clearingWorld_def quietWorld_def)
  have diff: "htype twoFAFound \<noteq> htype captchaFound"
    by (simp add: twoFAFound_def captchaFound_def)
  have before': "\<forall>j<1. \<exists>cur. pollResult flickerWorld j = Some cur
      \<and> htype cur = htype captchaFound"
    using pollResult_flicker(1) by simp
  have change: "\<exists>cur. pollResult flickerWorld 1 = Some cur \<and> htype cur \<noteq> htype captchaFound"
    using pollResult_flicker(2) diff by simp
  have intime': "int (1 * pollPeriod flickerWorld) < timeoutOr None"
    by (simp add: pollPeriod_def flickerWorld_def quietWorld_def timeoutOr_def)
  from polls [of flickerWorld captchaFound None, THEN conjunct1, rule_format, of 1]
    before' change intime'
  have "waitForHumanStepResolution captchaFound None flickerWorld
      = (True, snd (runDetection (afterPolls 1 flickerWorld)))"
    by blast
  then have b: "waitForHumanStepResolution captchaFound None flickerWorld
      = (True, flickerWorld\<lparr>clock := 2000, detectionCycles := 2\<rparr>)"
    by (simp add: runDetection_def afterPolls_def pollPeriod_def flickerWorld_def quietWorld_def)
  have never: "\<forall>k. int (k * pollPeriod stuckWorld) < timeoutOr (Some 5000)
      \<longrightarrow> (\<exists>cur. pollResult stuckWorld k = Some cur \<and> htype cur = htype captchaFound)"
    by (simp add: pollResult_stuck)
  from polls [of stuckWorld captchaFound "Some 5000", THEN conjunct2, THEN conjunct1, THEN mp,
      OF never]
  obtain n where res: "waitForHumanStepResolution captchaFound (Some 5000) stuckWorld
        = (False, afterPolls n stuckWorld)"
    and late: "timeoutOr (Some 5000) \<le> int (n * pollPeriod stuckWorld)"
    and early: "\<forall>m<n. int (m * pollPeriod stuckWorld) < timeoutOr (Some 5000)"
    by blast
  have period: "pollPeriod stuckWorld = 2000"
    by (simp add: pollPeriod_def stuckWorld_def quietWorld_def)
  from late period have "3 \<le> n" by (simp add: timeoutOr_def)
  moreover have "n \<le> 3"
  proof (rule ccontr)
    assume "\<not> n \<le> 3"
    then have "3 < n" by simp
    with early have "int (3 * pollPeriod stuckWorld) < timeoutOr (Some 5000)" by blast
    with period show False by (simp add: timeoutOr_def)
  qed
  ultimately have "n = 3" by simp
  with res have c: "waitForHumanStepResolution captchaFound (Some 5000) stuckWorld
      = (False, stuckWorld\<lparr>clock := 6000, detectionCycles := 3\<rparr>)"
    by (simp add: afterPolls_def period) (simp add: stuckWorld_def quietWorld_def)
  from pollResult_clearing intime a pollResult_flicker diff b pollResult_stuck c
  show ?thesis by simp
qed

text \<open>
  Claim C10.  With a timeout of zero or less, \<open>waitForHumanStepResolution\<close> returns
  \<open>false\<close> and leaves the environment as it was: no detection cycle has run, whatever
  the page shows.
\<close>

theorem waitForHumanStepResolution_nonpositive_timeout:
  "t \<le> 0 \<Longrightarrow> waitForHumanStepResolution prior (Some t) w = (False, w)"
  unfolding waitForHumanStepResolution_def
  by (subst waitLoop.simps) (simp add: timeoutOr_def)

text \<open>On a blank page a first poll would report the CAPTCHA resolved; with timeout
  \<open>0\<close> or \<open>-1\<close> the waiter still returns \<open>false\<close> without polling.\<close>

theorem waitForHumanStepResolution_nonpositive_timeout_witness:
  "(0::int) \<le> 0
   \<and> resolved captchaFound (fst (runDetection (quietWorld (\<lambda>t. blankPage))))
   \<and> waitForHumanStepResolution captchaFound (Some 0) (quietWorld (\<lambda>t. blankPage))
       = (False, quietWorld (\<lambda>t. blankPage))
   \<and> detectionCycles (snd (waitForHumanStepResolution captchaFound (Some (- 1))
         (quietWorld (\<lambda>t. blankPage)))) = 0"
proof -
  have r: "resolved captchaFound (fst (runDetection (quietWorld (\<lambda>t. blankPage))))"
    by (simp add: runDetection_def quietWorld_def resolved_def blankPage_def
        detector_defs selector_defs)
  have z: "(0::int) \<le> 0" by simp
  from waitForHumanStepResolution_nonpositive_timeout [OF z]
  have a: "waitForHumanStepResolution captchaFound (Some 0) (quietWorld (\<lambda>t. blankPage))
       = (False, quietWorld (\<lambda>t. blankPage))" .
  have "(- 1::int) \<le> 0" by simp
  from waitForHumanStepResolution_nonpositive_timeout [OF this]
  have "waitForHumanStepResolution captchaFound (Some (- 1)) (quietWorld (\<lambda>t. blankPage))
       = (False, quietWorld (\<lambda>t. blankPage))" .
  then have b: "detectionCycles (snd (waitForHumanStepResolution captchaFound (Some (- 1))
         (quietWorld (\<lambda>t. blankPage)))) = 0"
    by (simp add: quietWorld_def)
  from z r a b show ?thesis by blast
qed


section \<open>Properties of the application store\<close>

lemma setStatuses_snoc:
  "setStatuses (calls @ [(now, st)]) a = setStatus now st (setStatuses calls a)"
  by (simp add: setStatuses_def)

lemma startedAt_setStatus:
  "startedAt (setStatus now st a) =
     (case startedAt a of Some t \<Rightarrow> Some t
      | None \<Rightarrow> if st = InProgress \<or> st = Paused then Some now else None)"
  by (simp add: setStatus_def split: option.splits)

lemma completedAt_setStatus:
  "completedAt (setStatus now st a) =
     (if st = Completed \<or> st = Failed then Some now else completedAt a)"
  by (auto simp: setStatus_def)

lemma startedAt_kept:
  "startedAt a = Some t \<Longrightarrow> startedAt (setStatuses calls a) = Some t"
proof (induction calls rule: rev_induct)
  case Nil
  then show ?case by (simp add: setStatuses_def)
next
  case (snoc c calls)
  obtain now st where c: "c = (now, st)" by (cases c)
  from snoc show ?case by (simp add: c setStatuses_snoc startedAt_setStatus)
qed

text \<open>
  Claim C9, as stated, says that \<open>completedAt\<close> is set at most once.  A run that
  completes, is taken up again and completes again has it set twice: the second
  \<open>completed\<close> update replaces the first timestamp.
\<close>

theorem completedAt_overwritten:
  "completedAt (setStatuses [(1, InProgress), (5, Completed)] queuedApplication) = Some 5
   \<and> completedAt (setStatuses [(1, InProgress), (5, Completed), (60, InProgress), (65, Completed)]
        queuedApplication) = Some 65"
  by (simp add: setStatuses_def setStatus_def queuedApplication_def)

text \<open>
  Claim C9, amended.  Over any sequence of \<open>updateApplicationStatus\<close> calls on a run,
  \<open>startedAt\<close> is set by the first update to \<open>in_progress\<close> or \<open>paused\<close> and never
  changes once set; \<open>completedAt\<close> is set to the current timestamp by every update to
  \<open>completed\<close> or \<open>failed\<close> and left as it is by the other updates.
\<close>

theorem setStatuses_timestamps:
  "(startedAt a = Some t \<longrightarrow> startedAt (setStatuses calls a) = Some t)
   \<and> startedAt (setStatus now st a) =
       (case startedAt a of Some t' \<Rightarrow> Some t'
        | None \<Rightarrow> if st = InProgress \<or> st = Paused then Some now else None)
   \<and> completedAt (setStatuses (calls @ [(now, st)]) a) =
       (if st = Completed \<or> st = Failed then Some now else completedAt (setStatuses calls a))
   \<and> (storeFault w (storeCalls w) = None \<longrightarrow>
        applications (snd (updateApplicationStatus i st w)) i =
          map_option (setStatus (currentTimestamp w) st) (applications w i))"
  by (simp add: startedAt_kept startedAt_setStatus setStatuses_snoc completedAt_setStatus
      updateApplicationStatus_def)

text \<open>A start time survives later pauses, resumptions and a failure.\<close>

theorem setStatuses_timestamps_witness:
  "startedAt (setStatus 1 InProgress queuedApplication) = Some 1
   \<and> startedAt (setStatuses [(5, Paused), (9, InProgress), (12, Failed), (60, InProgress)]
        (setStatus 1 InProgress queuedApplication)) = Some 1
   \<and> storeFault (quietWorld (\<lambda>t. blankPage)) (storeCalls (quietWorld (\<lambda>t. blankPage))) = None
   \<and> map_option status
        (applications (snd (updateApplicationStatus 1 Paused (quietWorld (\<lambda>t. blankPage)))) 1)
       = Some Paused"
proof -
  have s: "startedAt (setStatus 1 InProgress queuedApplication) = Some 1"
    by (simp add: setStatus_def queuedApplication_def)
  with setStatuses_timestamps [where a = "setStatus 1 InProgress queuedApplication" and t = 1]
  have k: "startedAt (setStatuses [(5, Paused), (9, InProgress), (12, Failed), (60, InProgress)]
        (setStatus 1 InProgress queuedApplication)) = Some 1"
    by blast
  have ok: "storeFault (quietWorld (\<lambda>t. blankPage)) (storeCalls (quietWorld (\<lambda>t. blankPage))) = None"
    by (simp add: quietWorld_def)
  with setStatuses_timestamps [where w = "quietWorld (\<lambda>t. blankPage)" and i = 1 and st = Paused]
  have "applications (snd (updateApplicationStatus 1 Paused (quietWorld (\<lambda>t. blankPage)))) 1 =
          map_option (setStatus (currentTimestamp (quietWorld (\<lambda>t. blankPage))) Paused)
            (applications (quietWorld (\<lambda>t. blankPage)) 1)"
    by blast
  then have u: "map_option status
        (applications (snd (updateApplicationStatus 1 Paused (quietWorld (\<lambda>t. blankPage)))) 1)
       = Some Paused"
    by (simp add: quietWorld_def setStatus_def)
  from s k ok u show ?thesis by blast
qed


section \<open>Properties of the workflow\<close>

lemma waitLoop_frame:
  "\<exists>c d. snd (waitLoop prior T s w) = w\<lparr>clock := c, detectionCycles := d\<rparr>"
proof (induction prior T s w rule: waitLoop.induct)
  case (1 prior T s w)
  show ?case
  proof (cases "int (clock w) - int s < T")
    case False
    then have "snd (waitLoop prior T s w) = w"
      by (subst waitLoop.simps) simp
    then have "snd (waitLoop prior T s w)
        = w\<lparr>clock := clock w, detectionCycles := detectionCycles w\<rparr>"
      by simp
    then show ?thesis by blast
  next
    case True
    obtain cur w1 where rd: "runDetection w = (cur, w1)" by (cases "runDetection w")
    then have w1: "w1 = w\<lparr>clock := clock w + detectMs w,
        detectionCycles := Suc (detectionCycles w)\<rparr>"
      by (auto simp: runDetection_def)
    show ?thesis
    proof (cases "resolved prior cur")
      case yes: True
      with True rd have "snd (waitLoop prior T s w) = w1"
        by (subst waitLoop.simps) simp
      with w1 show ?thesis by blast
    next
      case no: False
      with True rd have eq: "waitLoop prior T s w = waitLoop prior T s (waitForTimeout 2000 w1)"
        by (subst waitLoop.simps) simp
      from "1.IH" [OF True rd [symmetric] no]
      obtain c d where "snd (waitLoop prior T s (waitForTimeout 2000 w1))
          = (waitForTimeout 2000 w1)\<lparr>clock := c, detectionCycles := d\<rparr>"
        by blast
      with eq w1 have "snd (waitLoop prior T s w) = w\<lparr>clock := c, detectionCycles := d\<rparr>"
        by (simp add: waitForTimeout_def)
      then show ?thesis by blast
    qed
  qed
qed

lemma waitForHumanStepResolution_frame:
  assumes "waitForHumanStepResolution prior t w = (b, w')"
  shows "\<exists>c d. w' = w\<lparr>clock := c, detectionCycles := d\<rparr>"
  using waitLoop_frame [of prior "timeoutOr t" "clock w" w] assms
  by (simp add: waitForHumanStepResolution_def)

lemma status_setStatus: "status (setStatus now st a) = st"
  by (simp add: setStatus_def)

lemma recordHumanStep_Inr:
  assumes "recordHumanStep ctx h w1 = (Inr u, w2)"
  shows "steps w2 = steps w1 @
           [\<lparr>stepApplicationId = applicationId ctx, stepType = HumanStepDetected,
             stepDescription = typeName (htype h) @ '': '' @ description h,
             stepTimestamp = currentTimestamp w1,
             stepMetadata = [(''type'', Some (typeName (htype h))), (''element'', element h)]\<rparr>]"
    and "applications w2 = (applications w1)
           (applicationId ctx :=
              map_option (setStatus (currentTimestamp w1) Paused)
                (applications w1 (applicationId ctx)))"
    and "notifications w2 = notifications w1 @ [HumanStepNotice (htype h) (description h)]"
    and "storeFault w2 = storeFault w1"
  using assms
  by (auto simp: recordHumanStep_def andThen_def addApplicationStep_def
      updateApplicationStatus_def audit_def notifyHumanStepDetected_def currentTimestamp_def
      split: option.splits)

lemma banners_runDetection: "loopBanners (snd (runDetection w)) = loopBanners w"
  by (simp add: runDetection_def)

lemma banners_update: "loopBanners (snd (updateApplicationStatus i st w)) = loopBanners w"
  by (simp add: updateApplicationStatus_def split: option.splits)

lemma banners_recordHumanStep: "loopBanners (snd (recordHumanStep ctx h w)) = loopBanners w"
  by (simp add: recordHumanStep_def andThen_def addApplicationStep_def updateApplicationStatus_def
      audit_def notifyHumanStepDetected_def split: option.splits)

lemma banners_resume: "loopBanners (snd (resumeAfterHumanStep ctx h w)) = loopBanners w"
  by (simp add: resumeAfterHumanStep_def andThen_def addApplicationStep_def
      updateApplicationStatus_def audit_def waitForTimeout_def split: option.splits)

lemma banners_wait: "loopBanners (snd (waitForHumanStepResolution h t w)) = loopBanners w"
proof -
  obtain b w' where eq: "waitForHumanStepResolution h t w = (b, w')"
    by (cases "waitForHumanStepResolution h t w")
  from waitForHumanStepResolution_frame [OF eq] eq show ?thesis by auto
qed

lemma banners_start: "loopBanners (snd (startWorkflow ctx w)) = loopBanners w"
  by (simp add: startWorkflow_def andThen_def addApplicationStep_def updateApplicationStatus_def
      navigateToUrl_def notifyApplicationProgress_def waitForTimeout_def split: option.splits)

lemma banners_finish: "loopBanners (snd (finishWorkflow ctx w)) = loopBanners w"
  by (simp add: finishWorkflow_def andThen_def addApplicationStep_def updateApplicationStatus_def
      notifyApplicationComplete_def split: option.splits)

lemma workflowLoop_banners:
  "length (loopBanners (snd (workflowLoop ctx c n w))) \<le> length (loopBanners w) + (maxLoops - n)"
proof (induction ctx c n w rule: workflowLoop.induct)
  case (1 ctx c n w)
  show ?case
  proof (cases "c \<and> n < maxLoops")
    case False
    then have "workflowLoop ctx c n w = (Inr None, w)"
      by (subst workflowLoop.simps) (simp only: if_False)
    then show ?thesis by simp
  next
    case True
    let ?w0 = "w\<lparr>loopBanners := loopBanners w @ [Suc n]\<rparr>"
    have step: "Suc (length (loopBanners w)) + (maxLoops - Suc n)
        = length (loopBanners w) + (maxLoops - n)"
      using True by arith
    obtain cur w1 where rd: "runDetection ?w0 = (cur, w1)" by (cases "runDetection ?w0")
    have b1: "loopBanners w1 = loopBanners w @ [Suc n]"
      using banners_runDetection [of ?w0] rd by simp
    show ?thesis
    proof (cases cur)
      case None
      with True rd have eq: "workflowLoop ctx c n w = workflowLoop ctx False (Suc n) w1"
        by (subst workflowLoop.simps) simp
      from "1.IH"(1) [OF True rd [symmetric] None] b1
      have "length (loopBanners (snd (workflowLoop ctx False (Suc n) w1)))
          \<le> Suc (length (loopBanners w)) + (maxLoops - Suc n)" by simp
      with step show ?thesis unfolding eq by (simp only:)
    next
      case (Some h)
      obtain r2 w2 where rec: "recordHumanStep ctx h w1 = (r2, w2)"
        by (cases "recordHumanStep ctx h w1")
      have b2: "loopBanners w2 = loopBanners w1"
        using banners_recordHumanStep [of ctx h w1] rec by simp
      show ?thesis
      proof (cases r2)
        case (Inl e)
        with True rd Some rec have "workflowLoop ctx c n w = (Inl e, w2)"
          by (subst workflowLoop.simps) simp
        with b1 b2 True show ?thesis by auto
      next
        case (Inr u)
        obtain b w3 where wt: "waitForHumanStepResolution h None w2 = (b, w3)"
          by (cases "waitForHumanStepResolution h None w2")
        have b3: "loopBanners w3 = loopBanners w2"
          using banners_wait [of h None w2] wt by simp
        show ?thesis
        proof (cases b)
          case False
          obtain r4 w4 where up: "updateApplicationStatus (applicationId ctx) Paused w3 = (r4, w4)"
            by (cases "updateApplicationStatus (applicationId ctx) Paused w3")
          have b4: "loopBanners w4 = loopBanners w3"
            using banners_update [of "applicationId ctx" Paused w3] up by simp
          from True rd Some rec Inr wt False up
          have "snd (workflowLoop ctx c n w) = w4"
            by (subst workflowLoop.simps) (simp split: sum.splits)
          with b1 b2 b3 b4 True show ?thesis by auto
        next
          case yes: True
          obtain r4 w4 where rs: "resumeAfterHumanStep ctx h w3 = (r4, w4)"
            by (cases "resumeAfterHumanStep ctx h w3")
          have b4: "loopBanners w4 = loopBanners w3"
            using banners_resume [of ctx h w3] rs by simp
          show ?thesis
          proof (cases r4)
            case (Inl e)
            with True rd Some rec Inr wt yes rs have "snd (workflowLoop ctx c n w) = w4"
              by (subst workflowLoop.simps) simp
            with b1 b2 b3 b4 True show ?thesis by auto
          next
            case r4: (Inr u4)
            with True rd Some rec Inr wt yes rs
            have eq: "workflowLoop ctx c n w = workflowLoop ctx c (Suc n) w4"
              by (subst workflowLoop.simps) simp
            from "1.IH"(2) [OF True rd [symmetric] Some rec [symmetric] Inr wt [symmetric]
                eqTrueI [OF yes] rs [symmetric] r4]
            have "length (loopBanners (snd (workflowLoop ctx c (Suc n) w4)))
                \<le> length (loopBanners w4) + (maxLoops - Suc n)" .
            with b1 b2 b3 b4
            have "length (loopBanners (snd (workflowLoop ctx c (Suc n) w4)))
                \<le> Suc (length (loopBanners w)) + (maxLoops - Suc n)" by simp
            with step show ?thesis unfolding eq by (simp only:)
          qed
        qed
      qed
    qed
  qed
qed

lemma banners_handler: "loopBanners (snd (handleWorkflowError ctx e w)) = loopBanners w"
  by (simp add: handleWorkflowError_def andThen_def addApplicationStep_def
      updateApplicationStatus_def notifyApplicationComplete_def split: option.splits)

lemma workflowBody_banners:
  "length (loopBanners (snd (workflowBody ctx w))) \<le> length (loopBanners w) + maxLoops"
proof -
  obtain r5 w5 where st: "startWorkflow ctx w = (r5, w5)" by (cases "startWorkflow ctx w")
  have b5: "loopBanners w5 = loopBanners w" using banners_start [of ctx w] st by simp
  show ?thesis
  proof (cases r5)
    case (Inl e)
    with st b5 show ?thesis by (simp add: workflowBody_def andThen_def)
  next
    case (Inr u)
    obtain r6 w6 where lp: "workflowLoop ctx True 0 w5 = (r6, w6)"
      by (cases "workflowLoop ctx True 0 w5")
    have b6: "length (loopBanners w6) \<le> length (loopBanners w) + maxLoops"
      using workflowLoop_banners [of ctx True 0 w5] lp b5 by simp
    show ?thesis
    proof (cases r6)
      case (Inl e)
      with st Inr lp b6 show ?thesis by (simp add: workflowBody_def andThen_def)
    next
      case inner: (Inr early)
      show ?thesis
      proof (cases early)
        case (Some r)
        with st Inr lp inner b6 show ?thesis by (simp add: workflowBody_def andThen_def)
      next
        case None
        with st Inr lp inner have "workflowBody ctx w = finishWorkflow ctx w6"
          by (simp add: workflowBody_def andThen_def)
        with b6 banners_finish [of ctx w6] show ?thesis by simp
      qed
    qed
  qed
qed

lemma runApplicationWorkflow_banners:
  "length (loopBanners (snd (runApplicationWorkflow ctx w))) \<le> length (loopBanners w) + maxLoops"
proof -
  obtain r w1 where body: "workflowBody ctx w = (r, w1)" by (cases "workflowBody ctx w")
  have b: "length (loopBanners w1) \<le> length (loopBanners w) + maxLoops"
    using workflowBody_banners [of ctx w] body by simp
  show ?thesis
  proof (cases r)
    case (Inr res)
    with body b show ?thesis by (simp add: runApplicationWorkflow_def)
  next
    case (Inl e)
    with body b banners_handler [of ctx e w1]
    show ?thesis by (simp add: runApplicationWorkflow_def)
  qed
qed

lemma workflowBody_early_return:
  assumes "startWorkflow ctx w0 = (Inr u, w5)"
      and "workflowLoop ctx True 0 w5 = (Inr (Some r), w6)"
  shows "runApplicationWorkflow ctx w0 = (Inr r, w6)"
  using assms by (simp add: runApplicationWorkflow_def workflowBody_def andThen_def)

lemmas world_defs = quietWorld_def exampleContext_def queuedApplication_def

lemmas workflow_defs =
  runApplicationWorkflow_def handleWorkflowError_def workflowBody_def startWorkflow_def
  finishWorkflow_def recordHumanStep_def resumeAfterHumanStep_def andThen_def
  updateApplicationStatus_def addApplicationStep_def audit_def navigateToUrl_def
  notifyHumanStepDetected_def notifyApplicationProgress_def notifyApplicationComplete_def
  waitForTimeout_def currentTimestamp_def setStatus_def timeoutResult_def runDetection_def

subsection \<open>The catch block\<close>

text \<open>
  Claim C3, as stated, says that no exception ever crosses the boundary of
  \<open>runApplicationWorkflow\<close>.  With a database that is locked throughout, the first
  status update throws, the \<open>catch\<close> block tries to write the \<open>error\<close> step, that write
  throws as well, and this second exception reaches the caller.
\<close>

theorem workflow_exception_escapes:
  "fst (runApplicationWorkflow exampleContext lockedWorld) = Inl (ErrorObject ''database is locked'')"
  by (simp add: lockedWorld_def world_defs workflow_defs)

text \<open>
  Claim C3, amended.  Whenever a statement of the \<open>try\<close> block throws (the navigation
  or a write to the store) and the two store writes of the \<open>catch\<close> block succeed, the
  function appends an \<open>error\<close> step that holds the exception message, sets the status to
  \<open>failed\<close>, sends the failure notification and returns \<open>{success: false, message}\<close>.
\<close>

theorem runApplicationWorkflow_catch:
  assumes body: "workflowBody ctx w = (Inl error, w1)"
      and step_ok: "storeFault w1 (storeCalls w1) = None"
      and status_ok: "storeFault w1 (Suc (storeCalls w1)) = None"
  shows "\<exists>w2. runApplicationWorkflow ctx w =
            (Inr \<lparr>success = False,
                  message = (case error of ErrorObject m \<Rightarrow> m
                             | OtherValue s \<Rightarrow> ''Unknown error'')\<rparr>,
             w2)
          \<and> steps w2 = steps w1 @
               [\<lparr>stepApplicationId = applicationId ctx, stepType = ErrorStep,
                 stepDescription =
                   ''Error: '' @ (case error of ErrorObject m \<Rightarrow> m | OtherValue s \<Rightarrow> s),
                 stepTimestamp = currentTimestamp w1, stepMetadata = []\<rparr>]
          \<and> applications w2 (applicationId ctx) =
               map_option (setStatus (currentTimestamp w1) Failed)
                 (applications w1 (applicationId ctx))
          \<and> notifications w2 =
               notifications w1 @ [CompleteNotice (jobTitle ctx) (jobCompany ctx) False]"
  using assms
  by (simp add: runApplicationWorkflow_def handleWorkflowError_def andThen_def
      addApplicationStep_def updateApplicationStatus_def notifyApplicationComplete_def
      currentTimestamp_def)

text \<open>A navigation that fails, and a \<open>navigation\<close> step that cannot be written.\<close>

theorem runApplicationWorkflow_catch_witness:
  "fst (workflowBody exampleContext offlineWorld) = Inl (ErrorObject ''net::ERR_NAME_NOT_RESOLVED'')
   \<and> fst (runApplicationWorkflow exampleContext offlineWorld)
       = Inr \<lparr>success = False, message = ''net::ERR_NAME_NOT_RESOLVED''\<rparr>
   \<and> map stepType (steps (snd (runApplicationWorkflow exampleContext offlineWorld)))
       = [Navigation, ErrorStep]
   \<and> map_option status (applications (snd (runApplicationWorkflow exampleContext offlineWorld)) 1)
       = Some Failed
   \<and> notifications (snd (runApplicationWorkflow exampleContext offlineWorld))
       = [CompleteNotice ''Engineer'' ''Example'' False]
   \<and> fst (workflowBody exampleContext flakyStoreWorld) = Inl (ErrorObject ''disk I/O error'')
   \<and> fst (runApplicationWorkflow exampleContext flakyStoreWorld)
       = Inr \<lparr>success = False, message = ''disk I/O error''\<rparr>
   \<and> map stepDescription (steps (snd (runApplicationWorkflow exampleContext flakyStoreWorld)))
       = [''Error: disk I/O error'']"
proof -
  define v where "v = snd (workflowBody exampleContext offlineWorld)"
  have thrown: "fst (workflowBody exampleContext offlineWorld)
      = Inl (ErrorObject ''net::ERR_NAME_NOT_RESOLVED'')"
    by (simp add: offlineWorld_def world_defs workflow_defs)
  then have body: "workflowBody exampleContext offlineWorld
      = (Inl (ErrorObject ''net::ERR_NAME_NOT_RESOLVED''), v)"
    by (simp add: v_def prod_eq_iff)
  have v: "storeFault v (storeCalls v) = None" "storeFault v (Suc (storeCalls v)) = None"
      "map stepType (steps v) = [Navigation]" "notifications v = []"
      "map_option status (applications v 1) = Some InProgress"
    by (simp_all add: v_def offlineWorld_def world_defs workflow_defs)
  from runApplicationWorkflow_catch [OF body v(1,2)] v(3,4,5)
  have a: "fst (runApplicationWorkflow exampleContext offlineWorld)
       = Inr \<lparr>success = False, message = ''net::ERR_NAME_NOT_RESOLVED''\<rparr>
   \<and> map stepType (steps (snd (runApplicationWorkflow exampleContext offlineWorld)))
       = [Navigation, ErrorStep]
   \<and> map_option status (applications (snd (runApplicationWorkflow exampleContext offlineWorld)) 1)
       = Some Failed
   \<and> notifications (snd (runApplicationWorkflow exampleContext offlineWorld))
       = [CompleteNotice ''Engineer'' ''Example'' False]"
    by (auto simp: exampleContext_def status_setStatus option.map_comp comp_def)
  define u where "u = snd (workflowBody exampleContext flakyStoreWorld)"
  have thrown': "fst (workflowBody exampleContext flakyStoreWorld) = Inl (ErrorObject ''disk I/O error'')"
    by (simp add: flakyStoreWorld_def world_defs workflow_defs)
  then have body': "workflowBody exampleContext flakyStoreWorld
      = (Inl (ErrorObject ''disk I/O error''), u)"
    by (simp add: u_def prod_eq_iff)
  have u: "storeFault u (storeCalls u) = None" "storeFault u (Suc (storeCalls u)) = None"
      "steps u = []"
    by (simp_all add: u_def flakyStoreWorld_def world_defs workflow_defs)
  from runApplicationWorkflow_catch [OF body' u(1,2)] u(3)
  have b: "fst (runApplicationWorkflow exampleContext flakyStoreWorld)
       = Inr \<lparr>success = False, message = ''disk I/O error''\<rparr>
   \<and> map stepDescription (steps (snd (runApplicationWorkflow exampleContext flakyStoreWorld)))
       = [''Error: disk I/O error'']"
    by auto
  from thrown a thrown' b show ?thesis by blast
qed

subsection \<open>Timeout of the waiter\<close>

text \<open>The other case of the same branch: when the status write after the timeout
  throws, the exception leaves the loop for the \<open>catch\<close> block, with no row changed by
  that write.\<close>

lemma workflow_timeout_write_throws:
  assumes "loopCount < maxLoops"
      and "runDetection (w\<lparr>loopBanners := loopBanners w @ [Suc loopCount]\<rparr>)
             = (Some humanStep, w1)"
      and "recordHumanStep ctx humanStep w1 = (Inr (), w2)"
      and "waitForHumanStepResolution humanStep None w2 = (False, w3)"
      and "storeFault w3 (storeCalls w3) = Some e"
  shows "workflowLoop ctx True loopCount w = (Inl e, w3\<lparr>storeCalls := Suc (storeCalls w3)\<rparr>)"
  using assms
  by (subst workflowLoop.simps) (simp add: updateApplicationStatus_def)

text \<open>
  Claim C4, as stated, speaks of every run in which a human step is detected and
  \<open>waitForHumanStepResolution\<close> returns \<open>false\<close>.  In such a run the status write that
  follows the timeout can throw (here: the database is locked at that one call).  The
  \<open>catch\<close> block then takes over: the result carries the message of the exception, not
  the step type, and the status becomes \<open>failed\<close>.
\<close>

theorem workflow_timeout_then_store_fault:
  "fst (runDetection (snd (startWorkflow exampleContext busyStoreWorld))) = Some captchaFound
   \<and> fst (waitForHumanStepResolution captchaFound None
          (snd (recordHumanStep exampleContext captchaFound
             (snd (runDetection ((snd (startWorkflow exampleContext busyStoreWorld))
                \<lparr>loopBanners := [1]\<rparr>)))))) = False
   \<and> fst (runApplicationWorkflow exampleContext busyStoreWorld)
       = Inr \<lparr>success = False, message = ''database is locked''\<rparr>
   \<and> map_option status (applications (snd (runApplicationWorkflow exampleContext busyStoreWorld)) 1)
       = Some Failed
   \<and> map stepType (steps (snd (runApplicationWorkflow exampleContext busyStoreWorld)))
       = [Navigation, HumanStepDetected, ErrorStep]"
proof -
  let ?e = "ErrorObject ''database is locked''"
  define w5 where "w5 = snd (startWorkflow exampleContext busyStoreWorld)"
  define w1 where "w1 = snd (runDetection (w5\<lparr>loopBanners := loopBanners w5 @ [Suc 0]\<rparr>))"
  define w2 where "w2 = snd (recordHumanStep exampleContext captchaFound w1)"
  define w3 where "w3 = snd (waitForHumanStepResolution captchaFound None w2)"
  have start: "startWorkflow exampleContext busyStoreWorld = (Inr (), w5)"
    by (simp add: w5_def prod_eq_iff)
       (simp add: busyStoreWorld_def stuckWorld_def world_defs workflow_defs)
  have b5: "loopBanners w5 = []"
    by (simp add: w5_def busyStoreWorld_def stuckWorld_def world_defs workflow_defs)
  have found: "fst (runDetection w5) = Some captchaFound"
    by (simp add: w5_def busyStoreWorld_def stuckWorld_def world_defs workflow_defs
        captchaFound_def captchaPage_def detector_defs selector_defs)
  have det: "runDetection (w5\<lparr>loopBanners := loopBanners w5 @ [Suc 0]\<rparr>) = (Some captchaFound, w1)"
    using found by (simp add: w1_def prod_eq_iff runDetection_def)
  have rec: "recordHumanStep exampleContext captchaFound w1 = (Inr (), w2)"
    by (simp add: w2_def prod_eq_iff)
       (simp add: w1_def w5_def busyStoreWorld_def stuckWorld_def world_defs workflow_defs)
  have w2: "page w2 = (\<lambda>t. captchaPage)"
      "storeFault w2 = (\<lambda>n. if n = 5 then Some ?e else None)" "storeCalls w2 = 5"
      "map stepType (steps w2) = [Navigation, HumanStepDetected]"
      "map_option status (applications w2 1) = Some Paused"
    by (simp_all add: w2_def w1_def w5_def busyStoreWorld_def stuckWorld_def world_defs
        workflow_defs)
  have "\<forall>t. \<not> resolved captchaFound (fst (detectHumanStep (page w2 t)))"
    by (simp add: w2 resolved_def captchaFound_def captchaPage_def detector_defs selector_defs)
  then have timeout: "fst (waitForHumanStepResolution captchaFound None w2) = False"
    by (rule waiter_never_resolved)
  then have wait: "waitForHumanStepResolution captchaFound None w2 = (False, w3)"
    by (simp add: w3_def prod_eq_iff)
  from waitForHumanStepResolution_frame [OF wait]
  obtain c d where w3: "w3 = w2\<lparr>clock := c, detectionCycles := d\<rparr>" by blast
  with w2 have fault: "storeFault w3 (storeCalls w3) = Some ?e" by simp
  have more: "0 < maxLoops" by (simp add: maxLoops_def)
  from workflow_timeout_write_throws [OF more det rec wait fault]
  have loop: "workflowLoop exampleContext True 0 w5 = (Inl ?e, w3\<lparr>storeCalls := Suc (storeCalls w3)\<rparr>)" .
  with start have body: "workflowBody exampleContext busyStoreWorld
      = (Inl ?e, w3\<lparr>storeCalls := Suc (storeCalls w3)\<rparr>)"
    by (simp add: workflowBody_def andThen_def)
  have run: "runApplicationWorkflow exampleContext busyStoreWorld
      = handleWorkflowError exampleContext ?e (w3\<lparr>storeCalls := Suc (storeCalls w3)\<rparr>)"
    by (simp add: runApplicationWorkflow_def body)
  have res: "fst (runApplicationWorkflow exampleContext busyStoreWorld)
       = Inr \<lparr>success = False, message = ''database is locked''\<rparr>"
    and st: "map_option status
        (applications (snd (runApplicationWorkflow exampleContext busyStoreWorld)) 1) = Some Failed"
    and sp: "map stepType (steps (snd (runApplicationWorkflow exampleContext busyStoreWorld)))
       = [Navigation, HumanStepDetected, ErrorStep]"
    using w2 unfolding run
    by (auto simp: w3 handleWorkflowError_def andThen_def addApplicationStep_def
        updateApplicationStatus_def notifyApplicationComplete_def exampleContext_def
        status_setStatus)
  from found timeout res st sp show ?thesis
    by (simp add: w5_def w2_def w1_def b5 [unfolded w5_def])
qed

text \<open>
  Claim C4, amended.  Take a run that has reached the loop test with counter
  \<open>loopCount\<close> in environment \<open>w\<close>, detects a human step there, records it, and gets
  \<open>false\<close> from \<open>waitForHumanStepResolution\<close>.  When the status write that follows
  completes, the run returns \<open>{success: false}\<close> with the message
  \<open>Timeout waiting for <type> resolution\<close>, the status of the application is
  \<open>paused\<close>, and the only step written since the detection is \<open>human_step_detected\<close>: no
  \<open>human_step_resolved\<close> step, no failure notification.
\<close>

theorem workflow_timeout_leaves_paused:
  assumes start: "startWorkflow ctx w0 = (Inr (), w5)"
      and reach: "workflowLoop ctx True 0 w5 = workflowLoop ctx True loopCount w"
      and more: "loopCount < maxLoops"
      and det: "runDetection (w\<lparr>loopBanners := loopBanners w @ [Suc loopCount]\<rparr>)
                  = (Some humanStep, w1)"
      and rec: "recordHumanStep ctx humanStep w1 = (Inr (), w2)"
      and wait: "waitForHumanStepResolution humanStep None w2 = (False, w3)"
      and ok: "storeFault w3 (storeCalls w3) = None"
      and app: "applications w (applicationId ctx) = Some a"
  shows "\<exists>w4 a'. runApplicationWorkflow ctx w0 =
            (Inr \<lparr>success = False,
                  message = ''Timeout waiting for '' @ typeName (htype humanStep)
                              @ '' resolution''\<rparr>, w4)
          \<and> applications w4 (applicationId ctx) = Some a' \<and> status a' = Paused
          \<and> steps w4 = steps w @
               [\<lparr>stepApplicationId = applicationId ctx, stepType = HumanStepDetected,
                 stepDescription = typeName (htype humanStep) @ '': '' @ description humanStep,
                 stepTimestamp = currentTimestamp w1,
                 stepMetadata = [(''type'', Some (typeName (htype humanStep))),
                                 (''element'', element humanStep)]\<rparr>]
          \<and> notifications w4 =
               notifications w @ [HumanStepNotice (htype humanStep) (description humanStep)]"
proof -
  from det have w1: "w1 = w\<lparr>loopBanners := loopBanners w @ [Suc loopCount],
      clock := clock w + detectMs w, detectionCycles := Suc (detectionCycles w)\<rparr>"
    by (auto simp: runDetection_def)
  note r = recordHumanStep_Inr [OF rec]
  from waitForHumanStepResolution_frame [OF wait]
  obtain c d where w3: "w3 = w2\<lparr>clock := c, detectionCycles := d\<rparr>" by blast
  define w4 where "w4 = snd (updateApplicationStatus (applicationId ctx) Paused w3)"
  have upd: "updateApplicationStatus (applicationId ctx) Paused w3 = (Inr (), w4)"
    using ok by (simp add: w4_def updateApplicationStatus_def)
  have loop: "workflowLoop ctx True loopCount w = (Inr (Some (timeoutResult humanStep)), w4)"
    using more det rec wait upd by (subst workflowLoop.simps) simp
  with reach have "workflowLoop ctx True 0 w5 = (Inr (Some (timeoutResult humanStep)), w4)"
    by simp
  with start have run: "runApplicationWorkflow ctx w0 = (Inr (timeoutResult humanStep), w4)"
    by (rule workflowBody_early_return)
  have apps: "applications w4 (applicationId ctx) =
      Some (setStatus (currentTimestamp w3) Paused (setStatus (currentTimestamp w1) Paused a))"
    using ok app r(2) by (simp add: w4_def updateApplicationStatus_def w3 w1)
  have st: "steps w4 = steps w3" "notifications w4 = notifications w3"
    using ok by (simp_all add: w4_def updateApplicationStatus_def)
  show ?thesis
    using run apps st r(1,3)
    by (simp add: timeoutResult_def w3 w1 status_setStatus)
qed

text \<open>A CAPTCHA that never clears, with the default timeout of five minutes.\<close>

theorem workflow_timeout_leaves_paused_witness:
  "fst (runDetection (snd (startWorkflow exampleContext stuckWorld))) = Some captchaFound
   \<and> fst (runApplicationWorkflow exampleContext stuckWorld)
       = Inr \<lparr>success = False, message = ''Timeout waiting for captcha resolution''\<rparr>
   \<and> map_option status (applications (snd (runApplicationWorkflow exampleContext stuckWorld)) 1)
       = Some Paused
   \<and> map stepType (steps (snd (runApplicationWorkflow exampleContext stuckWorld)))
       = [Navigation, HumanStepDetected]
   \<and> notifications (snd (runApplicationWorkflow exampleContext stuckWorld))
       = [ProgressNotice ''Engineer'' ''Example'' ''Page loaded'',
          HumanStepNotice Captcha ''reCAPTCHA verification required'']"
proof -
  define w5 where "w5 = snd (startWorkflow exampleContext stuckWorld)"
  define w1 where "w1 = snd (runDetection (w5\<lparr>loopBanners := loopBanners w5 @ [Suc 0]\<rparr>))"
  define w2 where "w2 = snd (recordHumanStep exampleContext captchaFound w1)"
  define w3 where "w3 = snd (waitForHumanStepResolution captchaFound None w2)"
  have start: "startWorkflow exampleContext stuckWorld = (Inr (), w5)"
    by (simp add: w5_def prod_eq_iff) (simp add: stuckWorld_def world_defs workflow_defs)
  have found: "fst (runDetection w5) = Some captchaFound"
    by (simp add: w5_def stuckWorld_def world_defs workflow_defs captchaFound_def captchaPage_def
        detector_defs selector_defs)
  have det: "runDetection (w5\<lparr>loopBanners := loopBanners w5 @ [Suc 0]\<rparr>) = (Some captchaFound, w1)"
    using found by (simp add: w1_def prod_eq_iff runDetection_def)
  have rec: "recordHumanStep exampleContext captchaFound w1 = (Inr (), w2)"
    by (simp add: w2_def prod_eq_iff)
       (simp add: w1_def w5_def stuckWorld_def world_defs workflow_defs)
  have pg: "page w2 = (\<lambda>t. captchaPage)" and sf: "storeFault w2 = (\<lambda>n. None)"
    by (simp_all add: w2_def w1_def w5_def stuckWorld_def world_defs workflow_defs)
  have "\<forall>t. \<not> resolved captchaFound (fst (detectHumanStep (page w2 t)))"
    by (simp add: pg resolved_def captchaFound_def captchaPage_def detector_defs selector_defs)
  then have "fst (waitForHumanStepResolution captchaFound None w2) = False"
    by (rule waiter_never_resolved)
  then have wait: "waitForHumanStepResolution captchaFound None w2 = (False, w3)"
    by (simp add: w3_def prod_eq_iff)
  from waitForHumanStepResolution_frame [OF wait] sf
  have ok: "storeFault w3 (storeCalls w3) = None" by auto
  have app: "applications w5 (applicationId exampleContext)
      = Some (setStatus 0 InProgress queuedApplication)"
    by (simp add: w5_def stuckWorld_def world_defs workflow_defs)
  have more: "0 < maxLoops" by (simp add: maxLoops_def)
  have before: "map stepType (steps w5) = [Navigation]"
      "notifications w5 = [ProgressNotice ''Engineer'' ''Example'' ''Page loaded'']"
    by (simp_all add: w5_def stuckWorld_def world_defs workflow_defs)
  from workflow_timeout_leaves_paused [OF start refl more det rec wait ok app] before
  have "fst (runApplicationWorkflow exampleContext stuckWorld)
       = Inr \<lparr>success = False, message = ''Timeout waiting for captcha resolution''\<rparr>
   \<and> map_option status (applications (snd (runApplicationWorkflow exampleContext stuckWorld)) 1)
       = Some Paused
   \<and> map stepType (steps (snd (runApplicationWorkflow exampleContext stuckWorld)))
       = [Navigation, HumanStepDetected]
   \<and> notifications (snd (runApplicationWorkflow exampleContext stuckWorld))
       = [ProgressNotice ''Engineer'' ''Example'' ''Page loaded'',
          HumanStepNotice Captcha ''reCAPTCHA verification required'']"
    by (auto simp: exampleContext_def captchaFound_def)
  with found show ?thesis by (simp add: w5_def)
qed

lemma workflowLoop_stop: "workflowLoop ctx False n w = (Inr None, w)"
  by (subst workflowLoop.simps) simp

lemma workflowLoop_ceiling: "maxLoops \<le> n \<Longrightarrow> workflowLoop ctx c n w = (Inr None, w)"
  by (subst workflowLoop.simps) simp

lemma workflowLoop_nothing_detected:
  assumes "n < maxLoops"
      and "fst (detectHumanStep (page w (clock w))) = None"
  shows "workflowLoop ctx True n w =
           (Inr None, snd (runDetection (w\<lparr>loopBanners := loopBanners w @ [Suc n]\<rparr>)))"
  using assms
  by (subst workflowLoop.simps) (simp add: workflowLoop_stop runDetection_def)

lemma workflowLoop_return_is_timeout:
  "workflowLoop ctx c n w = (Inr (Some r), w') \<Longrightarrow> \<exists>h. r = timeoutResult h"
proof (induction ctx c n w rule: workflowLoop.induct)
  case (1 ctx c n w)
  show ?case
  proof (cases "c \<and> n < maxLoops")
    case False
    then have "workflowLoop ctx c n w = (Inr None, w)"
      by (subst workflowLoop.simps) (simp only: if_False)
    with "1.prems" show ?thesis by simp
  next
    case True
    let ?w0 = "w\<lparr>loopBanners := loopBanners w @ [Suc n]\<rparr>"
    obtain cur w1 where rd: "runDetection ?w0 = (cur, w1)" by (cases "runDetection ?w0")
    show ?thesis
    proof (cases cur)
      case None
      with True rd have eq: "workflowLoop ctx c n w = workflowLoop ctx False (Suc n) w1"
        by (subst workflowLoop.simps) simp
      with "1.prems" show ?thesis by (simp add: workflowLoop_stop)
    next
      case (Some h)
      obtain r2 w2 where rec: "recordHumanStep ctx h w1 = (r2, w2)"
        by (cases "recordHumanStep ctx h w1")
      show ?thesis
      proof (cases r2)
        case (Inl e)
        with True rd Some rec have "workflowLoop ctx c n w = (Inl e, w2)"
          by (subst workflowLoop.simps) simp
        with "1.prems" show ?thesis by simp
      next
        case (Inr u)
        obtain b w3 where wt: "waitForHumanStepResolution h None w2 = (b, w3)"
          by (cases "waitForHumanStepResolution h None w2")
        show ?thesis
        proof (cases b)
          case False
          obtain r4 w4 where up: "updateApplicationStatus (applicationId ctx) Paused w3 = (r4, w4)"
            by (cases "updateApplicationStatus (applicationId ctx) Paused w3")
          from True rd Some rec Inr wt False up
          have "workflowLoop ctx c n w =
              (case r4 of Inl e \<Rightarrow> Inl e | Inr x \<Rightarrow> Inr (Some (timeoutResult h)), w4)"
            by (subst workflowLoop.simps) (simp split: sum.splits)
          with "1.prems" show ?thesis by (auto split: sum.splits)
        next
          case yes: True
          obtain r4 w4 where rs: "resumeAfterHumanStep ctx h w3 = (r4, w4)"
            by (cases "resumeAfterHumanStep ctx h w3")
          show ?thesis
          proof (cases r4)
            case (Inl e)
            with True rd Some rec Inr wt yes rs have "workflowLoop ctx c n w = (Inl e, w4)"
              by (subst workflowLoop.simps) simp
            with "1.prems" show ?thesis by simp
          next
            case r4: (Inr u4)
            with True rd Some rec Inr wt yes rs
            have eq: "workflowLoop ctx c n w = workflowLoop ctx c (Suc n) w4"
              by (subst workflowLoop.simps) simp
            from "1.IH"(2) [OF True rd [symmetric] Some rec [symmetric] Inr wt [symmetric]
                eqTrueI [OF yes] rs [symmetric] r4] "1.prems" eq
            show ?thesis by simp
          qed
        qed
      qed
    qed
  qed
qed

lemma handleWorkflowError_fails:
  "handleWorkflowError ctx e w = (Inr r, w') \<Longrightarrow> \<not> success r"
  by (auto simp: handleWorkflowError_def andThen_def addApplicationStep_def
      updateApplicationStatus_def split: option.splits)

lemma finishWorkflow_Inr:
  assumes "finishWorkflow ctx w6 = (Inr r, w')"
  shows "r = \<lparr>success = True, message = ''Application workflow completed successfully''\<rparr>
       \<and> steps w' = steps w6 @
            [\<lparr>stepApplicationId = applicationId ctx, stepType = Submission,
              stepDescription = ''Application workflow completed (manual submission required)'',
              stepTimestamp = currentTimestamp w6, stepMetadata = []\<rparr>]
       \<and> applications w' (applicationId ctx) =
            map_option (setStatus (currentTimestamp w6) Completed)
              (applications w6 (applicationId ctx))
       \<and> notifications w' =
            notifications w6 @ [CompleteNotice (jobTitle ctx) (jobCompany ctx) True]"
  using assms
  by (auto simp: finishWorkflow_def andThen_def addApplicationStep_def
      updateApplicationStatus_def notifyApplicationComplete_def currentTimestamp_def
      split: option.splits)

lemma success_only_after_completion:
  assumes run: "runApplicationWorkflow ctx w = (Inr r, w')" and ok: "success r"
  shows "\<exists>w5 w6. startWorkflow ctx w = (Inr (), w5)
           \<and> workflowLoop ctx True 0 w5 = (Inr None, w6)
           \<and> finishWorkflow ctx w6 = (Inr r, w')"
proof -
  obtain r5 w5 where st: "startWorkflow ctx w = (r5, w5)" by (cases "startWorkflow ctx w")
  obtain r6 w6 where lp: "workflowLoop ctx True 0 w5 = (r6, w6)"
    by (cases "workflowLoop ctx True 0 w5")
  show ?thesis
  proof (cases r5)
    case (Inl e)
    with st run have "handleWorkflowError ctx e w5 = (Inr r, w')"
      by (simp add: runApplicationWorkflow_def workflowBody_def andThen_def)
    with handleWorkflowError_fails ok show ?thesis by blast
  next
    case (Inr u)
    show ?thesis
    proof (cases r6)
      case (Inl e)
      with st Inr lp run have "handleWorkflowError ctx e w6 = (Inr r, w')"
        by (simp add: runApplicationWorkflow_def workflowBody_def andThen_def)
      with handleWorkflowError_fails ok show ?thesis by blast
    next
      case inner: (Inr early)
      show ?thesis
      proof (cases early)
        case (Some r')
        with lp inner workflowLoop_return_is_timeout [of ctx True 0 w5 r' w6]
        obtain h where "r' = timeoutResult h" by auto
        moreover from st Inr lp inner Some run have "r = r'"
          by (simp add: runApplicationWorkflow_def workflowBody_def andThen_def)
        ultimately show ?thesis using ok by (simp add: timeoutResult_def)
      next
        case None
        obtain r7 w7 where fin: "finishWorkflow ctx w6 = (r7, w7)"
          by (cases "finishWorkflow ctx w6")
        show ?thesis
        proof (cases r7)
          case (Inl e)
          with st Inr lp inner None fin run have "handleWorkflowError ctx e w7 = (Inr r, w')"
            by (simp add: runApplicationWorkflow_def workflowBody_def andThen_def)
          with handleWorkflowError_fails ok show ?thesis by blast
        next
          case fr: (Inr r'')
          with st Inr lp inner None fin run have "r'' = r" "w7 = w'"
            by (simp_all add: runApplicationWorkflow_def workflowBody_def andThen_def)
          with st Inr lp inner None fin fr show ?thesis by simp
        qed
      qed
    qed
  qed
qed

subsection \<open>Loop ceiling and completion\<close>

text \<open>
  Claim C8, as stated, says that a run which leaves the loop without a failure return
  records a \<open>submission\<close> step, sets the status to \<open>completed\<close> and returns
  \<open>{success: true}\<close>.  On a blank page the loop ends after one iteration without
  \<open>return\<close> and without exception; when the insert of the \<open>submission\<close> step then throws
  (here: the disk is full at that one call), the \<open>catch\<close> block takes over: no
  \<open>submission\<close> step, status \<open>failed\<close>, \<open>{success: false}\<close>.
\<close>

theorem workflow_completion_write_fails:
  "fst (startWorkflow exampleContext fullDiskWorld) = Inr ()
   \<and> fst (workflowLoop exampleContext True 0 (snd (startWorkflow exampleContext fullDiskWorld)))
       = Inr None
   \<and> fst (runApplicationWorkflow exampleContext fullDiskWorld)
       = Inr \<lparr>success = False, message = ''database or disk is full''\<rparr>
   \<and> map stepType (steps (snd (runApplicationWorkflow exampleContext fullDiskWorld)))
       = [Navigation, ErrorStep]
   \<and> map_option status (applications (snd (runApplicationWorkflow exampleContext fullDiskWorld)) 1)
       = Some Failed"
proof -
  define w5 where "w5 = snd (startWorkflow exampleContext fullDiskWorld)"
  define w6 where "w6 = snd (runDetection (w5\<lparr>loopBanners := loopBanners w5 @ [Suc 0]\<rparr>))"
  have s: "fst (startWorkflow exampleContext fullDiskWorld) = Inr ()"
    by (simp add: fullDiskWorld_def world_defs workflow_defs)
  then have start: "startWorkflow exampleContext fullDiskWorld = (Inr (), w5)"
    by (simp add: w5_def prod_eq_iff)
  have "fst (detectHumanStep (page w5 (clock w5))) = None"
    by (simp add: w5_def fullDiskWorld_def world_defs workflow_defs blankPage_def
        detector_defs selector_defs)
  with workflowLoop_nothing_detected [of 0 w5 exampleContext]
  have loop: "workflowLoop exampleContext True 0 w5 = (Inr None, w6)"
    by (simp add: w6_def maxLoops_def)
  from start loop have body: "workflowBody exampleContext fullDiskWorld
      = finishWorkflow exampleContext w6"
    by (simp add: workflowBody_def andThen_def)
  have fin: "finishWorkflow exampleContext w6
      = (Inl (ErrorObject ''database or disk is full''), w6\<lparr>storeCalls := 3\<rparr>)"
    by (simp add: w6_def w5_def fullDiskWorld_def world_defs workflow_defs)
  have run: "runApplicationWorkflow exampleContext fullDiskWorld
      = handleWorkflowError exampleContext (ErrorObject ''database or disk is full'')
          (w6\<lparr>storeCalls := 3\<rparr>)"
    by (simp add: runApplicationWorkflow_def body fin)
  have res: "fst (runApplicationWorkflow exampleContext fullDiskWorld)
       = Inr \<lparr>success = False, message = ''database or disk is full''\<rparr>"
    and st: "map stepType (steps (snd (runApplicationWorkflow exampleContext fullDiskWorld)))
       = [Navigation, ErrorStep]"
    and ap: "map_option status
        (applications (snd (runApplicationWorkflow exampleContext fullDiskWorld)) 1) = Some Failed"
    unfolding run
    by (simp_all add: w6_def w5_def fullDiskWorld_def world_defs workflow_defs)
  from s loop res st ap show ?thesis by (simp add: w5_def)
qed

text \<open>
  Claim C8, amended.  Whatever the page does, a run prints at most 20 \<open>[Loop n]\<close> lines,
  that is, the loop body runs at most 20 times; the run is a total function, its two
  loops being defined with termination proofs.  A run returns \<open>success: true\<close> only
  after the loop has ended without \<open>return\<close> and without exception, and then with a
  \<open>submission\<close> step appended, the status set to \<open>completed\<close> and the completion
  notification sent.  And when the statements before the loop complete, the loop ends
  without \<open>return\<close> and without exception, and the two store writes after it succeed,
  the run does return \<open>success: true\<close> in this way.
\<close>

theorem workflow_loop_bounded:
  "length (loopBanners (snd (runApplicationWorkflow ctx w))) \<le> length (loopBanners w) + 20
   \<and> (\<forall>r w'.
         runApplicationWorkflow ctx w = (Inr r, w') \<and> success r
       \<longrightarrow> (\<exists>w5 w6. startWorkflow ctx w = (Inr (), w5)
                 \<and> workflowLoop ctx True 0 w5 = (Inr None, w6)
                 \<and> r = \<lparr>success = True,
                         message = ''Application workflow completed successfully''\<rparr>
                 \<and> steps w' = steps w6 @
                      [\<lparr>stepApplicationId = applicationId ctx, stepType = Submission,
                        stepDescription =
                          ''Application workflow completed (manual submission required)'',
                        stepTimestamp = currentTimestamp w6, stepMetadata = []\<rparr>]
                 \<and> applications w' (applicationId ctx) =
                      map_option (setStatus (currentTimestamp w6) Completed)
                        (applications w6 (applicationId ctx))
                 \<and> notifications w' =
                      notifications w6 @ [CompleteNotice (jobTitle ctx) (jobCompany ctx) True]))
   \<and> (\<forall>w5 w6.
         startWorkflow ctx w = (Inr (), w5)
         \<and> workflowLoop ctx True 0 w5 = (Inr None, w6)
         \<and> storeFault w6 (storeCalls w6) = None
         \<and> storeFault w6 (Suc (storeCalls w6)) = None
       \<longrightarrow> (\<exists>w7. runApplicationWorkflow ctx w =
                   (Inr \<lparr>success = True,
                         message = ''Application workflow completed successfully''\<rparr>, w7)
                 \<and> steps w7 = steps w6 @
                      [\<lparr>stepApplicationId = applicationId ctx, stepType = Submission,
                        stepDescription =
                          ''Application workflow completed (manual submission required)'',
                        stepTimestamp = currentTimestamp w6, stepMetadata = []\<rparr>]
                 \<and> applications w7 (applicationId ctx) =
                      map_option (setStatus (currentTimestamp w6) Completed)
                        (applications w6 (applicationId ctx))
                 \<and> notifications w7 =
                      notifications w6 @ [CompleteNotice (jobTitle ctx) (jobCompany ctx) True]))"
proof -
  have bound: "length (loopBanners (snd (runApplicationWorkflow ctx w)))
      \<le> length (loopBanners w) + 20"
    using runApplicationWorkflow_banners [of ctx w] by (simp add: maxLoops_def)
  have only: "\<exists>w5 w6. startWorkflow ctx w = (Inr (), w5)
                 \<and> workflowLoop ctx True 0 w5 = (Inr None, w6)
                 \<and> r = \<lparr>success = True,
                         message = ''Application workflow completed successfully''\<rparr>
                 \<and> steps w' = steps w6 @
                      [\<lparr>stepApplicationId = applicationId ctx, stepType = Submission,
                        stepDescription =
                          ''Application workflow completed (manual submission required)'',
                        stepTimestamp = currentTimestamp w6, stepMetadata = []\<rparr>]
                 \<and> applications w' (applicationId ctx) =
                      map_option (setStatus (currentTimestamp w6) Completed)
                        (applications w6 (applicationId ctx))
                 \<and> notifications w' =
                      notifications w6 @ [CompleteNotice (jobTitle ctx) (jobCompany ctx) True]"
    if "runApplicationWorkflow ctx w = (Inr r, w') \<and> success r" for r w'
  proof -
    from that success_only_after_completion [of ctx w r w']
    obtain w5 w6 where "startWorkflow ctx w = (Inr (), w5)"
      and "workflowLoop ctx True 0 w5 = (Inr None, w6)"
      and fin: "finishWorkflow ctx w6 = (Inr r, w')"
      by blast
    with finishWorkflow_Inr [OF fin] show ?thesis by blast
  qed
  have fin: "\<exists>w7. runApplicationWorkflow ctx w =
                   (Inr \<lparr>success = True,
                         message = ''Application workflow completed successfully''\<rparr>, w7)
                 \<and> steps w7 = steps w6 @
                      [\<lparr>stepApplicationId = applicationId ctx, stepType = Submission,
                        stepDescription =
                          ''Application workflow completed (manual submission required)'',
                        stepTimestamp = currentTimestamp w6, stepMetadata = []\<rparr>]
                 \<and> applications w7 (applicationId ctx) =
                      map_option (setStatus (currentTimestamp w6) Completed)
                        (applications w6 (applicationId ctx))
                 \<and> notifications w7 =
                      notifications w6 @ [CompleteNotice (jobTitle ctx) (jobCompany ctx) True]"
    if "startWorkflow ctx w = (Inr (), w5)
         \<and> workflowLoop ctx True 0 w5 = (Inr None, w6)
         \<and> storeFault w6 (storeCalls w6) = None
         \<and> storeFault w6 (Suc (storeCalls w6)) = None"
    for w5 w6
    using that
    by (simp add: runApplicationWorkflow_def workflowBody_def finishWorkflow_def andThen_def
        addApplicationStep_def updateApplicationStatus_def notifyApplicationComplete_def
        currentTimestamp_def)
  show ?thesis
  proof (intro conjI allI impI)
    show "length (loopBanners (snd (runApplicationWorkflow ctx w))) \<le> length (loopBanners w) + 20"
      by (rule bound)
  qed (erule only, erule fin)
qed

text \<open>
  A page that shows a CAPTCHA whenever the loop looks and a verification-code prompt
  whenever the waiter looks for the second time: every iteration detects a step, sees it
  replaced by a step of another category, and resumes.
\<close>

lemma detect_captchaPage: "fst (detectHumanStep captchaPage) = Some captchaFound"
  by (simp add: captchaPage_def captchaFound_def detector_defs selector_defs)

lemma detect_twoFAPage: "fst (detectHumanStep twoFAPage) = Some twoFAFound"
  by (simp add: twoFAPage_def twoFAFound_def detector_defs selector_defs)

lemma flickerPage_even: "flickerPage (5000 + 4000 * k) = captchaPage"
proof -
  have "(5000 + 4000 * k) div 2000 = 2 * k + 2" by arith
  then show ?thesis by (simp add: flickerPage_def)
qed

lemma flickerPage_odd: "flickerPage (5000 + 4000 * k + 2000) = twoFAPage"
proof -
  have "(5000 + 4000 * k + 2000) div 2000 = 2 * k + 3" by arith
  then show ?thesis by (simp add: flickerPage_def)
qed

lemma recordHumanStep_quiet:
  assumes "storeFault w = (\<lambda>n. None)"
  shows "\<exists>w2. recordHumanStep ctx h w = (Inr (), w2) \<and> page w2 = page w
           \<and> detectMs w2 = detectMs w \<and> storeFault w2 = storeFault w \<and> clock w2 = clock w
           \<and> loopBanners w2 = loopBanners w"
  using assms
  by (simp add: recordHumanStep_def andThen_def addApplicationStep_def
      updateApplicationStatus_def audit_def notifyHumanStepDetected_def)

lemma resumeAfterHumanStep_quiet:
  assumes "storeFault w = (\<lambda>n. None)"
  shows "\<exists>w2. resumeAfterHumanStep ctx h w = (Inr (), w2) \<and> page w2 = page w
           \<and> detectMs w2 = detectMs w \<and> storeFault w2 = storeFault w
           \<and> clock w2 = clock w + 2000 \<and> loopBanners w2 = loopBanners w"
  using assms
  by (simp add: resumeAfterHumanStep_def andThen_def addApplicationStep_def
      updateApplicationStatus_def audit_def waitForTimeout_def)

lemma flicker_wait:
  assumes pg: "page w = flickerPage" and dm: "detectMs w = 0"
      and ck: "clock w = 5000 + 4000 * k"
  shows "\<exists>d. waitForHumanStepResolution captchaFound None w
           = (True, w\<lparr>clock := 5000 + 4000 * k + 2000, detectionCycles := d\<rparr>)"
proof -
  have p: "pollPeriod w = 2000" by (simp add: pollPeriod_def dm)
  have c0: "\<not> clearsAt captchaFound w 0"
    by (simp add: clearsAt_def runDetection_def afterPolls_def pg ck flickerPage_even
        detect_captchaPage resolved_def)
  have c1: "clearsAt captchaFound w 1"
    using flickerPage_odd [of k]
    by (simp add: clearsAt_def runDetection_def afterPolls_def pg ck p
        detect_twoFAPage resolved_def captchaFound_def twoFAFound_def)
  from c0 have before: "\<forall>j<1. \<not> clearsAt captchaFound w j" by simp
  have "int (1 * pollPeriod w) < timeoutOr None" by (simp add: p timeoutOr_def)
  from waitLoop_clears [OF before c1 this]
  have "waitForHumanStepResolution captchaFound None w
      = (True, snd (runDetection (afterPolls 1 w)))"
    by (simp add: waitForHumanStepResolution_def)
  then have "waitForHumanStepResolution captchaFound None w
      = (True, w\<lparr>clock := 5000 + 4000 * k + 2000,
                  detectionCycles := Suc (Suc (detectionCycles w))\<rparr>)"
    by (simp add: runDetection_def afterPolls_def p dm ck)
  then show ?thesis by blast
qed

lemma flicker_iteration:
  assumes more: "n < maxLoops" and pg: "page w = flickerPage" and dm: "detectMs w = 0"
      and sf: "storeFault w = (\<lambda>n. None)" and ck: "clock w = 5000 + 4000 * k"
  shows "\<exists>w'. workflowLoop ctx True n w = workflowLoop ctx True (Suc n) w'
           \<and> page w' = flickerPage \<and> detectMs w' = 0 \<and> storeFault w' = (\<lambda>n. None)
           \<and> clock w' = 5000 + 4000 * Suc k \<and> loopBanners w' = loopBanners w @ [Suc n]"
proof -
  let ?w0 = "w\<lparr>loopBanners := loopBanners w @ [Suc n]\<rparr>"
  define w1 where "w1 = snd (runDetection ?w0)"
  have det: "runDetection ?w0 = (Some captchaFound, w1)"
    by (simp add: w1_def prod_eq_iff)
       (simp add: runDetection_def pg ck flickerPage_even detect_captchaPage)
  have f1: "page w1 = flickerPage" "detectMs w1 = 0" "storeFault w1 = (\<lambda>n. None)"
      "clock w1 = 5000 + 4000 * k" "loopBanners w1 = loopBanners w @ [Suc n]"
    by (simp_all add: w1_def runDetection_def pg dm sf ck)
  from recordHumanStep_quiet [OF f1(3), of ctx captchaFound] f1
  obtain w2 where rec: "recordHumanStep ctx captchaFound w1 = (Inr (), w2)"
    and f2: "page w2 = flickerPage" "detectMs w2 = 0" "storeFault w2 = (\<lambda>n. None)"
      "clock w2 = 5000 + 4000 * k" "loopBanners w2 = loopBanners w @ [Suc n]"
    by auto
  from flicker_wait [OF f2(1,2,4)]
  obtain d where wait: "waitForHumanStepResolution captchaFound None w2
      = (True, w2\<lparr>clock := 5000 + 4000 * k + 2000, detectionCycles := d\<rparr>)"
    by blast
  let ?w3 = "w2\<lparr>clock := 5000 + 4000 * k + 2000, detectionCycles := d\<rparr>"
  have f3: "storeFault ?w3 = (\<lambda>n. None)" by (simp add: f2)
  from resumeAfterHumanStep_quiet [OF f3, of ctx captchaFound] f2
  obtain w4 where res: "resumeAfterHumanStep ctx captchaFound ?w3 = (Inr (), w4)"
    and f4: "page w4 = flickerPage" "detectMs w4 = 0" "storeFault w4 = (\<lambda>n. None)"
      "clock w4 = 5000 + 4000 * k + 2000 + 2000" "loopBanners w4 = loopBanners w @ [Suc n]"
    by auto
  have "workflowLoop ctx True n w = workflowLoop ctx True (Suc n) w4"
    using more det rec wait res by (subst workflowLoop.simps) simp
  with f4 show ?thesis by auto
qed

lemma flicker_loop:
  assumes "n \<le> maxLoops" and "page w = flickerPage" and "detectMs w = 0"
      and "storeFault w = (\<lambda>n. None)" and "clock w = 5000 + 4000 * k"
  shows "\<exists>w'. workflowLoop ctx True n w = (Inr None, w') \<and> storeFault w' = (\<lambda>n. None)
           \<and> loopBanners w' = loopBanners w @ [Suc n..<Suc maxLoops]"
  using assms
proof (induction "maxLoops - n" arbitrary: n w k)
  case 0
  then have "workflowLoop ctx True n w = (Inr None, w)"
    by (simp add: workflowLoop_ceiling)
  with 0 show ?case by simp
next
  case (Suc m)
  then have more: "n < maxLoops" by simp
  from flicker_iteration [OF more Suc.prems(2,3,4,5), of ctx]
  obtain w1 where eq: "workflowLoop ctx True n w = workflowLoop ctx True (Suc n) w1"
    and f: "page w1 = flickerPage" "detectMs w1 = 0" "storeFault w1 = (\<lambda>n. None)"
      "clock w1 = 5000 + 4000 * Suc k" "loopBanners w1 = loopBanners w @ [Suc n]"
    by blast
  have m: "m = maxLoops - Suc n" using Suc.hyps(2) by simp
  have le: "Suc n \<le> maxLoops" using more by simp
  from Suc.hyps(1) [OF m le f(1,2,3,4)]
  obtain w' where "workflowLoop ctx True (Suc n) w1 = (Inr None, w')"
    and "storeFault w' = (\<lambda>n. None)"
    and "loopBanners w' = loopBanners w1 @ [Suc (Suc n)..<Suc maxLoops]"
    by blast
  with eq f(5) more show ?case
    by (simp add: upt_conv_Cons)
qed

text \<open>A run on a blank page ends after one iteration; a run on the flickering page
  runs the loop body twenty times and then completes with \<open>success: true\<close>.\<close>

theorem workflow_loop_bounded_witness:
  "fst (startWorkflow exampleContext (quietWorld (\<lambda>t. blankPage))) = Inr ()
   \<and> fst (workflowLoop exampleContext True 0
            (snd (startWorkflow exampleContext (quietWorld (\<lambda>t. blankPage))))) = Inr None
   \<and> fst (runApplicationWorkflow exampleContext (quietWorld (\<lambda>t. blankPage)))
       = Inr \<lparr>success = True, message = ''Application workflow completed successfully''\<rparr>
   \<and> map stepType (steps (snd (runApplicationWorkflow exampleContext (quietWorld (\<lambda>t. blankPage)))))
       = [Navigation, Submission]
   \<and> map_option status
        (applications (snd (runApplicationWorkflow exampleContext (quietWorld (\<lambda>t. blankPage)))) 1)
       = Some Completed
   \<and> length (loopBanners (snd (runApplicationWorkflow exampleContext (quietWorld (\<lambda>t. blankPage)))))
       \<le> 20
   \<and> fst (startWorkflow exampleContext flickerWorld) = Inr ()
   \<and> fst (workflowLoop exampleContext True 0 (snd (startWorkflow exampleContext flickerWorld)))
       = Inr None
   \<and> loopBanners
        (snd (workflowLoop exampleContext True 0 (snd (startWorkflow exampleContext flickerWorld))))
       = [1..<21]
   \<and> fst (runApplicationWorkflow exampleContext flickerWorld)
       = Inr \<lparr>success = True, message = ''Application workflow completed successfully''\<rparr>"
proof -
  let ?w = "quietWorld (\<lambda>t. blankPage)"
  define w5 where "w5 = snd (startWorkflow exampleContext ?w)"
  define w6 where "w6 = snd (runDetection (w5\<lparr>loopBanners := loopBanners w5 @ [Suc 0]\<rparr>))"
  have s: "fst (startWorkflow exampleContext ?w) = Inr ()"
    by (simp add: world_defs workflow_defs)
  then have start: "startWorkflow exampleContext ?w = (Inr (), w5)"
    by (simp add: w5_def prod_eq_iff)
  have "fst (detectHumanStep (page w5 (clock w5))) = None"
    by (simp add: w5_def world_defs workflow_defs blankPage_def detector_defs selector_defs)
  with workflowLoop_nothing_detected [of 0 w5 exampleContext]
  have loop: "workflowLoop exampleContext True 0 w5 = (Inr None, w6)"
    by (simp add: w6_def maxLoops_def)
  have ok: "storeFault w6 (storeCalls w6) = None" "storeFault w6 (Suc (storeCalls w6)) = None"
    by (simp_all add: w6_def w5_def world_defs workflow_defs)
  have before: "map stepType (steps w6) = [Navigation]"
      "map_option status (applications w6 1) = Some InProgress"
    by (simp_all add: w6_def w5_def world_defs workflow_defs)
  from workflow_loop_bounded [of exampleContext ?w, THEN conjunct2, THEN conjunct2,
      rule_format, of w5 w6] start loop ok
  obtain w7 where run: "runApplicationWorkflow exampleContext ?w =
        (Inr \<lparr>success = True, message = ''Application workflow completed successfully''\<rparr>, w7)"
    and st: "steps w7 = steps w6 @
                      [\<lparr>stepApplicationId = applicationId exampleContext, stepType = Submission,
                        stepDescription =
                          ''Application workflow completed (manual submission required)'',
                        stepTimestamp = currentTimestamp w6, stepMetadata = []\<rparr>]"
    and ap: "applications w7 (applicationId exampleContext) =
                      map_option (setStatus (currentTimestamp w6) Completed)
                        (applications w6 (applicationId exampleContext))"
    by blast
  from workflow_loop_bounded [of exampleContext ?w, THEN conjunct1]
  have len: "length (loopBanners (snd (runApplicationWorkflow exampleContext ?w))) \<le> 20"
    by (simp add: quietWorld_def)
  from ap before(2) have "map_option status (applications w7 1) = Some Completed"
    by (auto simp: exampleContext_def status_setStatus)
  with s loop run st before(1) len
  have blank: "fst (startWorkflow exampleContext ?w) = Inr ()
   \<and> fst (workflowLoop exampleContext True 0 (snd (startWorkflow exampleContext ?w))) = Inr None
   \<and> fst (runApplicationWorkflow exampleContext ?w)
       = Inr \<lparr>success = True, message = ''Application workflow completed successfully''\<rparr>
   \<and> map stepType (steps (snd (runApplicationWorkflow exampleContext ?w)))
       = [Navigation, Submission]
   \<and> map_option status (applications (snd (runApplicationWorkflow exampleContext ?w)) 1)
       = Some Completed
   \<and> length (loopBanners (snd (runApplicationWorkflow exampleContext ?w))) \<le> 20"
    by (simp add: w5_def)
  define v5 where "v5 = snd (startWorkflow exampleContext flickerWorld)"
  have s': "fst (startWorkflow exampleContext flickerWorld) = Inr ()"
    by (simp add: flickerWorld_def world_defs workflow_defs)
  then have start': "startWorkflow exampleContext flickerWorld = (Inr (), v5)"
    by (simp add: v5_def prod_eq_iff)
  have v5: "page v5 = flickerPage" "detectMs v5 = 0" "storeFault v5 = (\<lambda>n. None)"
      "clock v5 = 5000 + 4000 * 0" "loopBanners v5 = []"
    by (simp_all add: v5_def flickerWorld_def world_defs workflow_defs)
  from flicker_loop [of 0 v5 0 exampleContext] v5
  obtain v6 where loop': "workflowLoop exampleContext True 0 v5 = (Inr None, v6)"
    and ok': "storeFault v6 = (\<lambda>n. None)" and ban: "loopBanners v6 = [Suc 0..<Suc maxLoops]"
    by auto
  from workflow_loop_bounded [of exampleContext flickerWorld, THEN conjunct2, THEN conjunct2,
      rule_format, of v5 v6] start' loop' ok'
  have run': "fst (runApplicationWorkflow exampleContext flickerWorld)
       = Inr \<lparr>success = True, message = ''Application workflow completed successfully''\<rparr>"
    by auto
  from loop' ban have "fst (workflowLoop exampleContext True 0 v5) = Inr None"
      "loopBanners (snd (workflowLoop exampleContext True 0 v5)) = [1..<21]"
    by (simp_all add: maxLoops_def)
  with s' run' have flick:
    "fst (startWorkflow exampleContext flickerWorld) = Inr ()
     \<and> fst (workflowLoop exampleContext True 0 (snd (startWorkflow exampleContext flickerWorld)))
       = Inr None
     \<and> loopBanners
        (snd (workflowLoop exampleContext True 0 (snd (startWorkflow exampleContext flickerWorld))))
       = [1..<21]
     \<and> fst (runApplicationWorkflow exampleContext flickerWorld)
       = Inr \<lparr>success = True, message = ''Application workflow completed successfully''\<rparr>"
    by (simp add: v5_def)
  from blank flick show ?thesis by (simp only:) 
qed


end
